theory Spec2Isabelle
  imports Main
begin

section \<open>JavaScript strings and the built-ins the rating pipeline uses\<close>

text \<open>
  The development follows two sources of the repository: the userscript
  \<open>TweetFilter-AI.user.js\<close>, which bundles the configuration, the rating engine
  (\<open>scheduleTweetProcessing\<close>, \<open>delayedProcessTweet\<close>) and a copy of \<open>api.js\<close>
  without streaming; and a later version of \<open>api.js\<close> with the streaming transport
  (\<open>getCompletionStreaming\<close>, \<open>rateTweetStreaming\<close>), called \<open>api.js\<close> below.

  A JavaScript string is modelled as a \<^typ>\<open>string\<close> (a list of characters). The
  model covers the ASCII range: \<open>\s\<close>, \<open>trim\<close> and \<open>toLowerCase\<close> treat the
  ASCII white space and the letters \<open>A\<close> to \<open>Z\<close>; \<open>\d\<close> is \<open>[0-9]\<close>, as in
  JavaScript. Numbers are unbounded integers: the values the pipeline computes (scores, attempt
  counters, millisecond delays) are far below \<open>2^53\<close>, where a JavaScript number is exact.
\<close>

definition isDigit :: "char \<Rightarrow> bool" where
  "isDigit c \<longleftrightarrow> c \<in> set ''0123456789''"

definition isSpace :: "char \<Rightarrow> bool" where
  "isSpace c \<longleftrightarrow> c \<in> {CHR '' '', CHR 0x09, CHR 0x0A, CHR 0x0B, CHR 0x0C, CHR 0x0D}"

definition digitVal :: "char \<Rightarrow> nat" where
  "digitVal c = of_char c - 48"

text \<open>\<open>parseInt(ds, 10)\<close> on a string: the longest prefix of decimal digits, \<open>NaN\<close>
  (here \<open>None\<close>) when there is none. (No sign or leading white space occurs where the
  pipeline calls it on a capture group of \<open>\d+\<close>.)\<close>

definition parseInt :: "string \<Rightarrow> nat option" where
  "parseInt s =
     (let ds = takeWhile isDigit s
      in if ds = [] then None else Some (foldl (\<lambda>acc c. 10 * acc + digitVal c) 0 ds))"

definition startsWith :: "string \<Rightarrow> string \<Rightarrow> bool" where
  "startsWith s p \<longleftrightarrow> take (length p) s = p"

section \<open>Score extraction\<close>

text \<open>
  \<open>String.prototype.match\<close> with a regular expression without the \<open>g\<close> flag returns
  the leftmost match. \<open>regexSearch m s\<close> tries the matcher \<open>m\<close> at every start position
  of \<open>s\<close>, from the left, and returns the capture group of the first position that matches.
\<close>

fun regexSearch :: "(string \<Rightarrow> string option) \<Rightarrow> string \<Rightarrow> string option" where
  "regexSearch m [] = m []"
| "regexSearch m (c # cs) =
     (case m (c # cs) of Some g \<Rightarrow> Some g | None \<Rightarrow> regexSearch m cs)"

text \<open>\<open>/SCORE_(\d+)/\<close> anchored at the start of \<open>s\<close>: the literal, then a greedy,
  non-empty run of digits, which is the capture group.\<close>

definition matchSCORE :: "string \<Rightarrow> string option" where
  "matchSCORE s =
     (if startsWith s ''SCORE_'' \<and> takeWhile isDigit (drop 6 s) \<noteq> []
      then Some (takeWhile isDigit (drop 6 s)) else None)"

text \<open>\<open>/\SCORE_(\d+)/\<close>, as the userscript writes it: \<open>\S\<close> is the class of the
  characters that are not white space, followed by the literal \<open>CORE_\<close>.\<close>

definition matchNonSpaceCORE :: "string \<Rightarrow> string option" where
  "matchNonSpaceCORE s =
     (case s of
        [] \<Rightarrow> None
      | c # r \<Rightarrow>
          if \<not> isSpace c \<and> startsWith r ''CORE_'' \<and> takeWhile isDigit (drop 5 r) \<noteq> []
          then Some (takeWhile isDigit (drop 5 r)) else None)"

text \<open>The score of a response text in \<open>api.js\<close>:
  \<open>content.match(/SCORE_(\d+)/)\<close>, then \<open>parseInt(scoreMatch[1], 10)\<close>.\<close>

definition extractScore :: "string \<Rightarrow> nat option" where
  "extractScore content =
     (case regexSearch matchSCORE content of None \<Rightarrow> None | Some g \<Rightarrow> parseInt g)"

text \<open>The same step in \<open>TweetFilter-AI.user.js\<close>:
  \<open>content.match(/\SCORE_(\d+)/)\<close>, then \<open>parseInt(scoreMatch[1], 10)\<close>.\<close>

definition extractScoreUserscript :: "string \<Rightarrow> nat option" where
  "extractScoreUserscript content =
     (case regexSearch matchNonSpaceCORE content of None \<Rightarrow> None | Some g \<Rightarrow> parseInt g)"

text \<open>What the specification calls a rating token: \<open>SCORE_\<close> followed by at least one
  digit, starting at position \<open>i\<close> of the text; and a text that contains one.\<close>

definition tokenAt :: "string \<Rightarrow> nat \<Rightarrow> bool" where
  "tokenAt s i \<longleftrightarrow>
     startsWith (drop i s) ''SCORE_'' \<and>
     (case drop 6 (drop i s) of [] \<Rightarrow> False | c # _ \<Rightarrow> isDigit c)"

definition containsToken :: "string \<Rightarrow> bool" where
  "containsToken s \<longleftrightarrow> (\<exists>i < length s. tokenAt s i)"

text \<open>The integer a token at position \<open>i\<close> encodes: its run of digits, read in base 10.\<close>

definition tokenValue :: "string \<Rightarrow> nat \<Rightarrow> nat" where
  "tokenValue s i = foldl (\<lambda>acc c. 10 * acc + digitVal c) 0 (takeWhile isDigit (drop 6 (drop i s)))"

subsection \<open>The extractor of \<open>api.js\<close> meets the specification\<close>

lemma takeWhile_nonempty_iff:
  "takeWhile P xs \<noteq> [] \<longleftrightarrow> (case xs of [] \<Rightarrow> False | c # _ \<Rightarrow> P c)"
  by (cases xs) auto

lemma tokenAt_0: "tokenAt s 0 \<longleftrightarrow> matchSCORE s \<noteq> None"
  by (simp add: tokenAt_def matchSCORE_def takeWhile_nonempty_iff)

lemma tokenAt_Nil: "\<not> tokenAt [] i"
  by (simp add: tokenAt_def startsWith_def)

lemma tokenAt_Suc: "tokenAt (c # cs) (Suc i) \<longleftrightarrow> tokenAt cs i"
  by (simp add: tokenAt_def)

lemma tokenAt_length: "tokenAt s i \<Longrightarrow> i < length s"
  by (cases "i < length s") (auto simp: tokenAt_def startsWith_def)

lemma regexSearch_first:
  "tokenAt s i \<Longrightarrow> (\<forall>j<i. \<not> tokenAt s j) \<Longrightarrow>
   regexSearch matchSCORE s = Some (takeWhile isDigit (drop 6 (drop i s)))"
proof (induction s arbitrary: i)
  case Nil
  then show ?case by (simp add: tokenAt_Nil)
next
  case (Cons c cs)
  show ?case
  proof (cases i)
    case 0
    with Cons.prems(1) have "matchSCORE (c # cs) \<noteq> None"
      by (simp add: tokenAt_0)
    then show ?thesis using 0
      by (auto simp: matchSCORE_def split: if_splits)
  next
    case (Suc k)
    with Cons.prems have k: "tokenAt cs k" and first: "\<forall>j<k. \<not> tokenAt cs j"
      and no0: "\<not> tokenAt (c # cs) 0"
      by (auto simp: tokenAt_Suc dest: spec [where x = "Suc _"])
    from no0 have "matchSCORE (c # cs) = None"
      by (simp add: tokenAt_0)
    then show ?thesis using Cons.IH [OF k first] Suc by simp
  qed
qed

lemma regexSearch_none:
  "(\<forall>i. \<not> tokenAt s i) \<Longrightarrow> regexSearch matchSCORE s = None"
proof (induction s)
  case Nil
  then show ?case using tokenAt_0 [of "[]"] by simp
next
  case (Cons c cs)
  have "\<forall>i. \<not> tokenAt cs i"
    using Cons.prems tokenAt_Suc by blast
  moreover have "matchSCORE (c # cs) = None"
    using Cons.prems tokenAt_0 by blast
  ultimately show ?case using Cons.IH by simp
qed

lemma parseInt_takeWhile:
  "takeWhile isDigit xs \<noteq> [] \<Longrightarrow>
   parseInt (takeWhile isDigit xs) = Some (foldl (\<lambda>acc c. 10 * acc + digitVal c) 0 (takeWhile isDigit xs))"
  by (simp add: parseInt_def)

lemma extractScore_first_token:
  assumes "tokenAt s i" and "\<forall>j<i. \<not> tokenAt s j"
  shows "extractScore s = Some (tokenValue s i)"
proof -
  have "takeWhile isDigit (drop 6 (drop i s)) \<noteq> []"
    using assms(1) by (simp add: tokenAt_def takeWhile_nonempty_iff)
  then show ?thesis
    using regexSearch_first [OF assms]
    by (simp add: extractScore_def tokenValue_def parseInt_takeWhile)
qed

lemma extractScore_no_token:
  "\<not> containsToken s \<Longrightarrow> extractScore s = None"
proof -
  assume "\<not> containsToken s"
  then have "\<forall>i. \<not> tokenAt s i"
    using tokenAt_length by (auto simp: containsToken_def)
  then show ?thesis
    by (simp add: extractScore_def regexSearch_none)
qed

lemma extractScore_SCORE_7_anywhere:
  "extractScore (''SCORE_7'' @ rest) = Some (tokenValue (''SCORE_7'' @ rest) 0)"
  by (rule extractScore_first_token) (simp_all add: tokenAt_def startsWith_def isDigit_def)

lemma containsToken_iff: "containsToken s \<longleftrightarrow> extractScore s \<noteq> None"
proof
  assume "containsToken s"
  then obtain i where i: "tokenAt s i"
    by (auto simp: containsToken_def)
  define k where "k = (LEAST i. tokenAt s i)"
  have tk: "tokenAt s k"
    unfolding k_def using i by (rule LeastI)
  have first: "\<forall>j<k. \<not> tokenAt s j"
    unfolding k_def by (auto dest: not_less_Least)
  have "extractScore s = Some (tokenValue s k)"
    using tk first by (rule extractScore_first_token)
  then show "extractScore s \<noteq> None"
    by simp
next
  assume some: "extractScore s \<noteq> None"
  show "containsToken s"
  proof (rule ccontr)
    assume "\<not> containsToken s"
    then have "extractScore s = None"
      by (rule extractScore_no_token)
    with some show False
      by simp
  qed
qed

subsection \<open>The extractor of the userscript\<close>

text \<open>
  Claim C1: a text that contains a rating token yields the integer of the first one, and a
  text that contains none yields null. The userscript's pattern \<open>/\SCORE_(\d+)/\<close> accepts
  any character that is not white space where the specification has the letter \<open>S\<close>: the
  text \<open>XCORE_7\<close> contains no rating token, and the userscript extracts the score 7 from
  it; in \<open>ENCORE_2 then SCORE_7\<close> the first rating token encodes 7, and the userscript
  extracts 2. The later \<open>api.js\<close> (pattern \<open>/SCORE_(\d+)/\<close>) returns null and 7.
\<close>

theorem extractScoreUserscript_accepts_XCORE:
  "\<not> containsToken ''XCORE_7'' \<and>
   extractScoreUserscript ''XCORE_7'' = Some 7 \<and>
   extractScore ''XCORE_7'' = None \<and>
   extractScoreUserscript ''ENCORE_2 then SCORE_7'' = Some 2 \<and>
   extractScore ''ENCORE_2 then SCORE_7'' = Some 7"
proof -
  have no: "extractScore ''XCORE_7'' = None"
    by (simp add: extractScore_def matchSCORE_def startsWith_def)
  have yes: "extractScoreUserscript ''XCORE_7'' = Some 7"
    by (simp add: extractScoreUserscript_def matchNonSpaceCORE_def isSpace_def isDigit_def
        parseInt_def digitVal_def startsWith_def)
  have two: "extractScoreUserscript ''ENCORE_2 then SCORE_7'' = Some 2"
    by (simp add: extractScoreUserscript_def matchNonSpaceCORE_def isSpace_def isDigit_def
        parseInt_def digitVal_def startsWith_def)
  have seven: "extractScore ''ENCORE_2 then SCORE_7'' = Some 7"
    by (simp add: extractScore_def matchSCORE_def isDigit_def parseInt_def digitVal_def
        startsWith_def)
  show ?thesis
    using no yes two seven by (simp add: containsToken_iff)
qed

section \<open>The non-streaming transport: \<open>getCompletion\<close>\<close>

text \<open>
  What \<open>GM_xmlhttpRequest\<close> reports for one request: \<open>onload\<close> with a status and a
  body, \<open>onerror\<close>, or \<open>ontimeout\<close>.
\<close>

datatype xhr_outcome = OnLoad int string | OnError string | OnTimeout

text \<open>
  The fields of a parsed response body that the pipeline reads. The documented shape
  (\<open>CompletionResponse\<close>) holds the text at \<open>choices[0].message.content\<close>;
  \<open>getCompletion\<close> also reads a top-level \<open>content\<close>. \<open>None\<close> is a field that is
  absent (or, for the strings, not a string).
\<close>

record choice =
  message_content :: "string option"
  native_finish_reason :: "string option"

record completion_response =
  top_content :: "string option"
  choices :: "choice list option"

record completion_result =
  error :: bool
  message :: string
  data :: "completion_response option"

text \<open>\<open>JSON.parse\<close> is a parameter of the model: \<open>Inl msg\<close> when it throws (the
  \<open>message\<close> of the exception), \<open>Inr d\<close> when the body is an object with the fields
  \<open>d\<close>.\<close>

type_synonym json_parse = "string \<Rightarrow> string + completion_response"

fun natToString :: "nat \<Rightarrow> string" where
  "natToString n =
     (if n < 10 then [''0123456789'' ! n]
      else natToString (n div 10) @ [''0123456789'' ! (n mod 10)])"

definition intToString :: "int \<Rightarrow> string" where
  "intToString i = (if i < 0 then ''-'' @ natToString (nat (- i)) else natToString (nat i))"

text \<open>The message of the \<open>TypeError\<close> that \<open>data.choices[0]\<close> throws when
  \<open>choices\<close> is absent or empty (the wording is the engine's).\<close>

definition typeErrorMessage :: string where
  "typeErrorMessage = ''Cannot read properties of undefined''"

text \<open>
  \<open>getCompletion(request, apiKey, timeout)\<close>: the result its promise resolves with. A
  promise keeps the first value it is resolved with, so after the \<open>No content returned\<close>
  branch the second \<open>resolve\<close> has no effect. An exception inside \<open>try\<close> resolves with
  \<open>Failed to parse response\<close>.
\<close>

definition getCompletion :: "json_parse \<Rightarrow> int \<Rightarrow> xhr_outcome \<Rightarrow> completion_result" where
  "getCompletion parse timeout outcome =
     (case outcome of
        OnLoad status responseText \<Rightarrow>
          if 200 \<le> status \<and> status < 300 then
            (case parse responseText of
               Inl msg \<Rightarrow>
                 \<lparr>error = True, message = ''Failed to parse response: '' @ msg, data = None\<rparr>
             | Inr d \<Rightarrow>
                 if top_content d = Some [] then
                   (case choices d of
                      Some (c # _) \<Rightarrow>
                        \<lparr>error = True,
                         message = ''No content returned'' @
                           (if native_finish_reason c = Some ''SAFETY''
                            then '' (SAFETY FILTER)'' else []),
                         data = Some d\<rparr>
                    | _ \<Rightarrow>
                        \<lparr>error = True,
                         message = ''Failed to parse response: '' @ typeErrorMessage,
                         data = None\<rparr>)
                 else \<lparr>error = False, message = ''Request successful'', data = Some d\<rparr>)
          else
            \<lparr>error = True,
             message = ''Request failed with status '' @ intToString status @ '': '' @ responseText,
             data = None\<rparr>
      | OnError e \<Rightarrow> \<lparr>error = True, message = ''Request error: '' @ e, data = None\<rparr>
      | OnTimeout \<Rightarrow>
          \<lparr>error = True,
           message = ''Request timed out after '' @ intToString timeout @ ''ms'',
           data = None\<rparr>)"

text \<open>\<open>result.data?.choices?.[0]?.message?.content\<close>: \<open>None\<close> when any link of the
  chain is missing.\<close>

definition firstMessageContent :: "completion_result \<Rightarrow> string option" where
  "firstMessageContent r =
     (case data r of
        None \<Rightarrow> None
      | Some d \<Rightarrow>
          (case choices d of
             Some (c # _) \<Rightarrow> message_content c
           | _ \<Rightarrow> None))"

declare natToString.simps [simp del]

section \<open>The shared state of the userscript\<close>

text \<open>The values of \<open>dataset.ratingStatus\<close> and of the \<open>status\<close> argument of
  \<open>setScoreIndicator\<close>.\<close>

datatype rating_status = Pending | Rated | ErrorStatus | Cached | Blacklisted | Streaming

text \<open>The \<open>.score-indicator\<close> element of an article: its status class, its text (the
  hourglass, the warning sign, or the score, which is empty for \<open>null\<close>) and
  \<open>dataset.description\<close>.\<close>

datatype indicator_text = Hourglass | WarningSign | ScoreText "nat option"

record indicator =
  ind_class :: rating_status
  ind_text :: indicator_text
  ind_description :: string

text \<open>
  A rendered tweet article, as far as the coordinator reads and writes it. What the content
  extractor computes from the rendered document is a field of the element: the id
  (\<open>getTweetID\<close>), the handles of the author links (\<open>getUserHandles\<close>) and the assembled
  context (\<open>getFullContext\<close>). \<open>sloppinessScore\<close> holds the number whose decimal string
  the script stores in the dataset.
\<close>

record article =
  tweetID :: string
  handleLinks :: "string list"
  fullContext :: string
  scoreIndicator :: "indicator option"
  sloppinessScore :: "nat option"
  blacklistedFlag :: bool
  cachedRating :: bool
  ratingStatus :: "rating_status option"
  ratingDescription :: "string option"
  hidden :: bool

record cache_entry =
  tweetContent :: string
  score :: nat
  description :: string

datatype event =
    RateLimitWait int
  | Dispatch nat
  | Backoff int
  | SetIndicator nat "nat option" rating_status

text \<open>
  The module-level variables, the settings read through \<open>GM_getValue\<close>, the rendered
  articles (a store from element addresses to articles: two elements can show the same
  tweet), the callbacks that \<open>setTimeout\<close> holds for \<open>scheduleTweetProcessing\<close>, the
  clock \<open>Date.now()\<close> and a log of what the script did.
\<close>

record world =
  processedTweets :: "string set"
  tweetIDRatingCache :: "string \<rightharpoonup> cache_entry"
  storedRatings :: "string \<rightharpoonup> cache_entry"
  blacklistedHandles :: "string list"
  apiKey :: string
  filterThreshold :: int
  lastAPICallTime :: int
  pendingRequests :: int
  clock :: int
  dispatched :: nat
  elements :: "nat \<Rightarrow> article"
  timers :: "(int \<times> nat \<times> string) list"
  log :: "event list"

definition PROCESSING_DELAY_MS :: int where
  "PROCESSING_DELAY_MS = 500"

definition API_CALL_DELAY_MS :: int where
  "API_CALL_DELAY_MS = 250"

definition MAX_RETRIES :: nat where
  "MAX_RETRIES = 3"

text \<open>The environment of a run: the outcome of the \<open>n\<close>-th request sent (counted from 0
  over the whole session) and the time it takes, in milliseconds.\<close>

type_synonym transport = "nat \<Rightarrow> xhr_outcome \<times> int"

subsection \<open>A sample session\<close>

text \<open>An article as it is first rendered, and the state of the script when it starts with an
  empty cache: the clock shows some time of day, the other variables hold their initial
  values.\<close>

definition freshArticle :: "string \<Rightarrow> string list \<Rightarrow> article" where
  "freshArticle tid hs =
     \<lparr>tweetID = tid, handleLinks = hs, fullContext = ''[TWEET]'',
      scoreIndicator = None, sloppinessScore = None, blacklistedFlag = False,
      cachedRating = False, ratingStatus = None, ratingDescription = None, hidden = False\<rparr>"

definition initialWorld :: world where
  "initialWorld =
     \<lparr>processedTweets = {}, tweetIDRatingCache = Map.empty, storedRatings = Map.empty,
      blacklistedHandles = [], apiKey = ''sk-or-key'', filterThreshold = 1,
      lastAPICallTime = 0, pendingRequests = 0, clock = 1000000, dispatched = 0,
      elements = (\<lambda>_. freshArticle ''1001'' [''alice'']),
      timers = [], log = []\<rparr>"

text \<open>A transport that answers every request with HTTP 500 after 100 ms, and a
  \<open>JSON.parse\<close> that rejects every body.\<close>

definition failingTransport :: transport where
  "failingTransport = (\<lambda>_. (OnLoad 500 ''Internal Server Error'', 100))"

definition rejectingParse :: json_parse where
  "rejectingParse = (\<lambda>_. Inl ''Unexpected token'')"

section \<open>Rate limiting\<close>

text \<open>
  The rate limiter at the head of every attempt:
  \<^verbatim>\<open>
  const now = Date.now();
  const timeElapsed = now - lastAPICallTime;
  if (timeElapsed < API_CALL_DELAY_MS) {
      await new Promise(resolve => setTimeout(resolve, API_CALL_DELAY_MS - timeElapsed));
  }
  lastAPICallTime = now;
  \<close>
  \<open>rateLimit lastCall now\<close> is the pair of the time at which the caller goes on to send its
  request and of the value stored in \<open>lastAPICallTime\<close>.
\<close>

definition rateLimit :: "int \<Rightarrow> int \<Rightarrow> int \<times> int" where
  "rateLimit lastCall now =
     (let timeElapsed = now - lastCall
      in (if timeElapsed < API_CALL_DELAY_MS then now + (API_CALL_DELAY_MS - timeElapsed) else now,
          now))"

definition acquire :: "world \<Rightarrow> world" where
  "acquire w =
     (let (release, stored) = rateLimit (lastAPICallTime w) (clock w)
      in w\<lparr>clock := release,
           log := log w @ (if clock w < release then [RateLimitWait (release - clock w)] else []),
           lastAPICallTime := stored\<rparr>)"

lemma rateLimit_stores_arrival: "snd (rateLimit lastCall now) = now"
  by (simp add: rateLimit_def Let_def)

lemma rateLimit_release: "fst (rateLimit lastCall now) = max now (lastCall + API_CALL_DELAY_MS)"
  by (simp add: rateLimit_def Let_def max_def)

lemma rateLimit_waits_then_stores_earlier:
  "now - lastCall < API_CALL_DELAY_MS \<Longrightarrow> snd (rateLimit lastCall now) < fst (rateLimit lastCall now)"
  by (simp add: rateLimit_def Let_def)

text \<open>
  Claim C5: between two consecutive grants at least \<open>API_CALL_DELAY_MS\<close> elapse, and the
  shared timestamp is set to the time of the new grant. The script stores \<open>now\<close>, read
  before the wait, not the time at which the caller is released. With
  \<open>lastAPICallTime = 1000\<close>, a caller that arrives at 1100 waits 150 ms and sends at 1250,
  and stores 1100; the next caller arrives at 1360, finds 260 ms elapsed and sends at once:
  the two requests are 110 ms apart.
\<close>

theorem rateLimit_grants_110_ms_apart:
  "(let (grant1, stored1) = rateLimit 1000 1100;
        (grant2, stored2) = rateLimit stored1 1360
    in grant1 = 1250 \<and> stored1 = 1100 \<and> grant2 = 1360 \<and>
       grant2 - grant1 = 110 \<and> grant2 - grant1 < API_CALL_DELAY_MS)"
  by (simp add: rateLimit_def API_CALL_DELAY_MS_def)

section \<open>The retry loop of \<open>rateTweetWithOpenRouter\<close>\<close>

record rating =
  rating_score :: nat
  rating_content :: string
  rating_error :: bool

definition saveTweetRatings :: "world \<Rightarrow> world" where
  "saveTweetRatings w = w\<lparr>storedRatings := tweetIDRatingCache w\<rparr>"

text \<open>One request: \<open>pendingRequests++\<close>, \<open>await getCompletion(request, apiKey)\<close>,
  \<open>pendingRequests--\<close>.\<close>

definition sendRequest :: "transport \<Rightarrow> json_parse \<Rightarrow> world \<Rightarrow> completion_result \<times> world" where
  "sendRequest net parse w =
     (let (outcome, latency) = net (dispatched w)
      in (getCompletion parse 30000 outcome,
          w\<lparr>log := log w @ [Dispatch (dispatched w)],
            dispatched := dispatched w + 1,
            clock := clock w + latency,
            pendingRequests := pendingRequests w + 1 - 1\<rparr>))"

text \<open>The score of a result, when the attempt produced one:
  \<open>!result.error && result.data?.choices?.[0]?.message?.content\<close>, then the match.\<close>

definition attemptScore :: "completion_result \<Rightarrow> (nat \<times> string) option" where
  "attemptScore r =
     (if error r then None
      else case firstMessageContent r of
             None \<Rightarrow> None
           | Some content \<Rightarrow>
               if content = [] then None
               else (case extractScoreUserscript content of
                       None \<Rightarrow> None
                     | Some sc \<Rightarrow> Some (sc, content)))"

definition failedRating :: rating where
  "failedRating =
     \<lparr>rating_score = 5,
      rating_content = ''Failed to get valid rating after multiple attempts'',
      rating_error = True\<rparr>"

text \<open>
  The loop \<open>while (attempt < maxRetries)\<close>, from the value \<open>attempt\<close> of the counter at
  the loop head. \<open>maxRetries\<close> is a natural number (the script's default is 3).
\<close>

function retryLoop ::
  "transport \<Rightarrow> json_parse \<Rightarrow> string \<Rightarrow> string \<Rightarrow> nat \<Rightarrow> nat \<Rightarrow> world \<Rightarrow> rating \<times> world" where
  "retryLoop net parse tweetText tweetId maxRetries attempt w =
     (if attempt < maxRetries then
        (let attempt' = attempt + 1;
             (result, w1) = sendRequest net parse (acquire w)
         in case attemptScore result of
              Some (sc, content) \<Rightarrow>
                (\<lparr>rating_score = sc, rating_content = content, rating_error = False\<rparr>,
                 saveTweetRatings
                   (w1\<lparr>tweetIDRatingCache := (tweetIDRatingCache w1)(tweetId \<mapsto>
                        \<lparr>tweetContent = tweetText, score = sc, description = content\<rparr>)\<rparr>))
            | None \<Rightarrow>
                if attempt' < maxRetries then
                  (let backoffDelay = int attempt' ^ 2 * 1000
                   in retryLoop net parse tweetText tweetId maxRetries attempt'
                        (w1\<lparr>clock := clock w1 + backoffDelay,
                             log := log w1 @ [Backoff backoffDelay]\<rparr>))
                else retryLoop net parse tweetText tweetId maxRetries attempt' w1)
      else (failedRating, w))"
  by pat_completeness auto
termination
  by (relation "measure (\<lambda>(net, parse, tweetText, tweetId, maxRetries, attempt, w). maxRetries - attempt)")
    auto

declare retryLoop.simps [simp del]

definition rateTweetWithOpenRouter ::
  "transport \<Rightarrow> json_parse \<Rightarrow> string \<Rightarrow> string \<Rightarrow> nat \<Rightarrow> world \<Rightarrow> rating \<times> world" where
  "rateTweetWithOpenRouter net parse tweetText tweetId maxRetries w =
     retryLoop net parse tweetText tweetId maxRetries 0 w"

subsection \<open>Responses with empty content\<close>

text \<open>A body of the documented shape whose first choice has empty content and was cut by
  the provider's safety filter.\<close>

definition safetyFilteredBody :: completion_response where
  "safetyFilteredBody =
     \<lparr>top_content = None,
      choices = Some [\<lparr>message_content = Some [], native_finish_reason = Some ''SAFETY''\<rparr>]\<rparr>"

lemma getCompletion_top_content_empty:
  assumes "200 \<le> status" and "status < 300"
    and "parse body = Inr d" and "top_content d = Some []" and "choices d = Some (c # cs)"
    and "native_finish_reason c = Some ''SAFETY''"
  shows "getCompletion parse timeout (OnLoad status body) =
           \<lparr>error = True, message = ''No content returned (SAFETY FILTER)'', data = Some d\<rparr>"
  using assms by (simp add: getCompletion_def)

lemma getCompletion_no_top_content:
  assumes "200 \<le> status" and "status < 300"
    and "parse body = Inr d" and "top_content d \<noteq> Some []"
  shows "getCompletion parse timeout (OnLoad status body) =
           \<lparr>error = False, message = ''Request successful'', data = Some d\<rparr>"
  using assms by (simp add: getCompletion_def)

text \<open>
  Claim C9: a 2xx response whose body is empty content attributable to the safety filter
  gives a result with \<open>error = true\<close> and a message that names the safety filter, and
  the attempt then takes the retry path of a response without a score token.
  \<open>getCompletion\<close> tests the top-level field \<open>data.content\<close>, which a completion
  response does not have: for a body of the documented shape, with
  \<open>choices[0].message.content\<close> empty and \<open>native_finish_reason\<close> \<open>SAFETY\<close>, it
  resolves with \<open>error = false\<close> and the message \<open>Request successful\<close>. The attempt
  yields no score, since the content is empty, and so takes the retry path.
\<close>

theorem getCompletion_safety_filtered_reports_success:
  "getCompletion (\<lambda>_. Inr safetyFilteredBody) 30000 (OnLoad 200 responseText) =
     \<lparr>error = False, message = ''Request successful'', data = Some safetyFilteredBody\<rparr> \<and>
   attemptScore (getCompletion (\<lambda>_. Inr safetyFilteredBody) 30000 (OnLoad 200 responseText)) = None"
  by (simp add: getCompletion_def safetyFilteredBody_def attemptScore_def firstMessageContent_def)

text \<open>A result with \<open>error = true\<close> yields no score either: both take the retry path.\<close>

lemma attemptScore_error: "error r \<Longrightarrow> attemptScore r = None"
  by (simp add: attemptScore_def)

subsection \<open>The trace of a call\<close>

text \<open>The events a call adds to the log, and the same without the waits of the rate
  limiter: the requests sent and the backoff sleeps, in order.\<close>

definition callEvents :: "world \<Rightarrow> world \<Rightarrow> event list" where
  "callEvents w w' = drop (length (log w)) (log w')"

fun isWait :: "event \<Rightarrow> bool" where
  "isWait (RateLimitWait _) = True"
| "isWait _ = False"

definition attemptSteps :: "event list \<Rightarrow> event list" where
  "attemptSteps evs = filter (\<lambda>e. \<not> isWait e) evs"

text \<open>The \<open>k\<close>-th attempt of a call that starts in \<open>w\<close> (\<open>k\<close> counted from 1) gets
  the response to request number \<open>dispatched w + k - 1\<close>; it fails when that response yields
  no score.\<close>

definition attemptFails :: "transport \<Rightarrow> json_parse \<Rightarrow> world \<Rightarrow> nat \<Rightarrow> bool" where
  "attemptFails net parse w k \<longleftrightarrow>
     attemptScore (getCompletion parse 30000 (fst (net (dispatched w + (k - 1))))) = None"

lemma acquire_dispatched [simp]: "dispatched (acquire w) = dispatched w"
  by (simp add: acquire_def Let_def split: prod.splits)

lemma acquire_steps [simp]: "attemptSteps (log (acquire w)) = attemptSteps (log w)"
  by (simp add: acquire_def Let_def attemptSteps_def split: prod.splits)

lemma acquire_log: "\<exists>ws. log (acquire w) = log w @ ws"
  by (simp add: acquire_def Let_def split: prod.splits)

lemma sendRequest_fst [simp]:
  "fst (sendRequest net parse w) = getCompletion parse 30000 (fst (net (dispatched w)))"
  by (simp add: sendRequest_def split: prod.splits)

lemma sendRequest_log [simp]:
  "log (snd (sendRequest net parse w)) = log w @ [Dispatch (dispatched w)]"
  by (simp add: sendRequest_def split: prod.splits)

lemma sendRequest_dispatched [simp]:
  "dispatched (snd (sendRequest net parse w)) = dispatched w + 1"
  by (simp add: sendRequest_def split: prod.splits)

text \<open>One turn of the loop, for an attempt that yields no score.\<close>

definition afterAttempt :: "transport \<Rightarrow> json_parse \<Rightarrow> world \<Rightarrow> world" where
  "afterAttempt net parse w = snd (sendRequest net parse (acquire w))"

definition afterBackoff :: "nat \<Rightarrow> world \<Rightarrow> world" where
  "afterBackoff attempt w =
     w\<lparr>clock := clock w + int attempt ^ 2 * 1000,
       log := log w @ [Backoff (int attempt ^ 2 * 1000)]\<rparr>"

lemma retryLoop_exhausted:
  "\<not> attempt < maxRetries \<Longrightarrow>
   retryLoop net parse tweetText tweetId maxRetries attempt w = (failedRating, w)"
  by (simp add: retryLoop.simps)

lemma retryLoop_fail_retry:
  assumes "attempt + 1 < maxRetries"
    and "attemptScore (getCompletion parse 30000 (fst (net (dispatched w)))) = None"
  shows "retryLoop net parse tweetText tweetId maxRetries attempt w =
         retryLoop net parse tweetText tweetId maxRetries (attempt + 1)
           (afterBackoff (attempt + 1) (afterAttempt net parse w))"
proof -
  obtain r w1 where sr: "sendRequest net parse (acquire w) = (r, w1)"
    by (cases "sendRequest net parse (acquire w)")
  have r: "r = getCompletion parse 30000 (fst (net (dispatched w)))"
    using sendRequest_fst [of net parse "acquire w"] sr by simp
  have "attempt < maxRetries"
    using assms(1) by simp
  then show ?thesis
    using assms sr r
    by (subst retryLoop.simps) (simp add: Let_def afterBackoff_def afterAttempt_def)
qed

lemma retryLoop_fail_last:
  assumes "attempt < maxRetries" and "\<not> attempt + 1 < maxRetries"
    and "attemptScore (getCompletion parse 30000 (fst (net (dispatched w)))) = None"
  shows "retryLoop net parse tweetText tweetId maxRetries attempt w =
         (failedRating, afterAttempt net parse w)"
proof -
  obtain r w1 where sr: "sendRequest net parse (acquire w) = (r, w1)"
    by (cases "sendRequest net parse (acquire w)")
  have r: "r = getCompletion parse 30000 (fst (net (dispatched w)))"
    using sendRequest_fst [of net parse "acquire w"] sr by simp
  show ?thesis
    using assms sr r
    by (subst retryLoop.simps) (simp add: Let_def afterAttempt_def retryLoop_exhausted)
qed

lemma retryLoop_success:
  assumes "attempt < maxRetries"
    and "attemptScore (getCompletion parse 30000 (fst (net (dispatched w)))) = Some (sc, content)"
  shows "retryLoop net parse tweetText tweetId maxRetries attempt w =
         (\<lparr>rating_score = sc, rating_content = content, rating_error = False\<rparr>,
          saveTweetRatings
            ((afterAttempt net parse w)\<lparr>tweetIDRatingCache :=
               (tweetIDRatingCache (afterAttempt net parse w))(tweetId \<mapsto>
                 \<lparr>tweetContent = tweetText, score = sc, description = content\<rparr>)\<rparr>))"
proof -
  obtain r w1 where sr: "sendRequest net parse (acquire w) = (r, w1)"
    by (cases "sendRequest net parse (acquire w)")
  have r: "r = getCompletion parse 30000 (fst (net (dispatched w)))"
    using sendRequest_fst [of net parse "acquire w"] sr by simp
  show ?thesis
    using assms sr r
    by (subst retryLoop.simps) (simp add: Let_def afterAttempt_def)
qed


lemma afterAttempt_steps [simp]:
  "attemptSteps (log (afterAttempt net parse w)) = attemptSteps (log w) @ [Dispatch (dispatched w)]"
  using acquire_steps [of w] by (simp add: afterAttempt_def attemptSteps_def)

lemma afterAttempt_dispatched [simp]:
  "dispatched (afterAttempt net parse w) = dispatched w + 1"
  by (simp add: afterAttempt_def)

lemma afterBackoff_dispatched [simp]: "dispatched (afterBackoff k w) = dispatched w"
  by (simp add: afterBackoff_def)

lemma afterBackoff_steps [simp]:
  "attemptSteps (log (afterBackoff k w)) = attemptSteps (log w) @ [Backoff (int k ^ 2 * 1000)]"
  by (simp add: afterBackoff_def attemptSteps_def)






lemma initialWorld_dispatched [simp]: "dispatched initialWorld = 0"
  by (simp add: initialWorld_def)

lemma initialWorld_log [simp]: "log initialWorld = []"
  by (simp add: initialWorld_def)


section \<open>The item processing coordinator\<close>

subsection \<open>The allow-list (the script's \<open>blacklistedHandles\<close>)\<close>

definition lowerChar :: "char \<Rightarrow> char" where
  "lowerChar c =
     (case map_of (zip ''ABCDEFGHIJKLMNOPQRSTUVWXYZ'' ''abcdefghijklmnopqrstuvwxyz'') c of
        Some l \<Rightarrow> l
      | None \<Rightarrow> c)"

definition toLowerCase :: "string \<Rightarrow> string" where
  "toLowerCase s = map lowerChar s"

definition trim :: "string \<Rightarrow> string" where
  "trim s = rev (dropWhile isSpace (rev (dropWhile isSpace s)))"

text \<open>
  \<^verbatim>\<open>
  function isUserBlacklisted(handle) {
      if (!handle) return false;
      handle = handle.toLowerCase().trim();
      return blacklistedHandles.some(h => h.toLowerCase().trim() === handle);
  }
  \<close>
\<close>

definition isUserBlacklisted :: "string list \<Rightarrow> string \<Rightarrow> bool" where
  "isUserBlacklisted listed handle =
     (if handle = [] then False
      else list_ex (\<lambda>h. trim (toLowerCase h) = trim (toLowerCase handle)) listed)"

text \<open>\<open>getUserHandles\<close> returns the handles of the author links, or \<open>['']\<close> when there
  is none; the coordinator takes the first.\<close>

definition getUserHandles :: "article \<Rightarrow> string list" where
  "getUserHandles a = (if handleLinks a = [] then [[]] else handleLinks a)"

definition userHandleOf :: "article \<Rightarrow> string" where
  "userHandleOf a = (case getUserHandles a of [] \<Rightarrow> [] | h # _ \<Rightarrow> h)"

definition authorAllowListed :: "world \<Rightarrow> article \<Rightarrow> bool" where
  "authorAllowListed w a \<longleftrightarrow>
     userHandleOf a \<noteq> [] \<and> isUserBlacklisted (blacklistedHandles w) (userHandleOf a)"

subsection \<open>The indicator and the filter\<close>

definition updateElement :: "nat \<Rightarrow> (article \<Rightarrow> article) \<Rightarrow> world \<Rightarrow> world" where
  "updateElement e f w = w\<lparr>elements := (elements w)(e := f (elements w e))\<rparr>"

text \<open>\<open>setScoreIndicator(tweetArticle, score, status, description)\<close> creates the indicator
  when the article has none, then sets its class and text from \<open>status\<close>: the statuses
  other than pending, error, cached and blacklisted fall to the \<open>rated\<close> class.\<close>

definition indicatorFor :: "nat option \<Rightarrow> rating_status \<Rightarrow> string \<Rightarrow> indicator" where
  "indicatorFor sc st desc =
     (case st of
        Pending \<Rightarrow> \<lparr>ind_class = Pending, ind_text = Hourglass, ind_description = desc\<rparr>
      | ErrorStatus \<Rightarrow> \<lparr>ind_class = ErrorStatus, ind_text = WarningSign, ind_description = desc\<rparr>
      | Cached \<Rightarrow> \<lparr>ind_class = Cached, ind_text = ScoreText sc, ind_description = desc\<rparr>
      | Blacklisted \<Rightarrow> \<lparr>ind_class = Blacklisted, ind_text = ScoreText sc, ind_description = desc\<rparr>
      | _ \<Rightarrow> \<lparr>ind_class = Rated, ind_text = ScoreText sc, ind_description = desc\<rparr>)"

definition setScoreIndicator :: "nat \<Rightarrow> nat option \<Rightarrow> rating_status \<Rightarrow> string \<Rightarrow> world \<Rightarrow> world" where
  "setScoreIndicator e sc st desc w =
     (updateElement e (\<lambda>a. a\<lparr>scoreIndicator := Some (indicatorFor sc st desc)\<rparr>) w)
       \<lparr>log := log w @ [SetIndicator e sc st]\<rparr>"

definition orEmpty :: "string option \<Rightarrow> string" where
  "orEmpty d = (case d of None \<Rightarrow> [] | Some s \<Rightarrow> s)"

text \<open>
  \<open>filterSingleTweet\<close>: the score is \<open>parseInt(dataset.sloppinessScore || '1', 10)\<close>, the
  indicator is set again from the dataset (status \<open>dataset.ratingStatus || 'rated'\<close>), and
  the cell is hidden when the tweet is not pending and its score is below the threshold.
\<close>

definition filterSingleTweet :: "nat \<Rightarrow> world \<Rightarrow> world" where
  "filterSingleTweet e w =
     (let a = elements w e;
          sc = (case sloppinessScore a of None \<Rightarrow> 1 | Some n \<Rightarrow> n);
          st = (case ratingStatus a of None \<Rightarrow> Rated | Some s \<Rightarrow> s);
          w1 = setScoreIndicator e (Some sc) st (orEmpty (ratingDescription a)) w
      in updateElement e
           (\<lambda>b. b\<lparr>hidden := (ratingStatus a \<noteq> Some Pending \<and> int sc < filterThreshold w)\<rparr>) w1)"

definition applyTweetCachedRating :: "nat \<Rightarrow> world \<Rightarrow> bool \<times> world" where
  "applyTweetCachedRating e w =
     (let a = elements w e; tweetId = tweetID a
      in if authorAllowListed w a then
           (True,
            filterSingleTweet e
              (setScoreIndicator e (Some 10) Blacklisted ''User is whitelisted''
                 (updateElement e
                    (\<lambda>b. b\<lparr>sloppinessScore := Some 10, blacklistedFlag := True,
                            ratingStatus := Some Blacklisted,
                            ratingDescription := Some ''Whtielisted user''\<rparr>) w)))
         else
           (case tweetIDRatingCache w tweetId of
              Some entry \<Rightarrow>
                (True,
                 filterSingleTweet e
                   (setScoreIndicator e (Some (score entry)) Cached (description entry)
                      (updateElement e
                         (\<lambda>b. b\<lparr>sloppinessScore := Some (score entry), cachedRating := True,
                                 ratingStatus := Some Cached,
                                 ratingDescription := Some (description entry)\<rparr>) w)))
            | None \<Rightarrow> (False, w)))"

subsection \<open>\<open>scheduleTweetProcessing\<close>\<close>

text \<open>
  The callback that \<open>setTimeout(..., PROCESSING_DELAY_MS)\<close> holds is recorded in
  \<open>timers\<close> with the time at which it is due, the element and the tweet id: it is the start
  of one rating pipeline.
\<close>

definition markPendingAndSchedule :: "nat \<Rightarrow> string \<Rightarrow> world \<Rightarrow> world" where
  "markPendingAndSchedule e tweetId w =
     (let w1 = w\<lparr>processedTweets := insert tweetId (processedTweets w)\<rparr>;
          w2 = updateElement e (\<lambda>a. a\<lparr>ratingStatus := Some Pending\<rparr>) w1;
          w3 = setScoreIndicator e None Pending [] w2
      in w3\<lparr>timers := timers w3 @ [(clock w3 + PROCESSING_DELAY_MS, e, tweetId)]\<rparr>)"

definition scheduleTweetProcessing :: "nat \<Rightarrow> world \<Rightarrow> world" where
  "scheduleTweetProcessing e w =
     (let a = elements w e; tweetId = tweetID a
      in if tweetId = [] then w
         else if authorAllowListed w a then
           filterSingleTweet e
             (setScoreIndicator e (Some 10) Blacklisted ''User is whitelisted''
                (updateElement e
                   (\<lambda>b. b\<lparr>sloppinessScore := Some 10, blacklistedFlag := True,
                           ratingStatus := Some Rated,
                           ratingDescription := Some ''Whitelisted user''\<rparr>) w))
         else if tweetIDRatingCache w tweetId \<noteq> None then snd (applyTweetCachedRating e w)
         else if tweetId \<in> processedTweets w then
           (if scoreIndicator a = None
            then markPendingAndSchedule e tweetId
                   (w\<lparr>processedTweets := processedTweets w - {tweetId}\<rparr>)
            else w)
         else markPendingAndSchedule e tweetId w)"

subsection \<open>\<open>delayedProcessTweet\<close>\<close>

definition forgetProcessed :: "string \<Rightarrow> world \<Rightarrow> world" where
  "forgetProcessed tweetId w = w\<lparr>processedTweets := processedTweets w - {tweetId}\<rparr>"

text \<open>The part of \<open>delayedProcessTweet\<close> after a rating came back: the dataset and the
  indicator, the cache entry (written whether or not the rating is an error), the final
  indicator, and the \<open>finally\<close> block.\<close>

definition applyRating :: "nat \<Rightarrow> string \<Rightarrow> string \<Rightarrow> rating \<Rightarrow> world \<Rightarrow> world" where
  "applyRating e tweetId context r w =
     (let st = (if rating_error r then ErrorStatus else Rated);
          desc = (if rating_content r = [] then ''not available'' else rating_content r);
          w1 = updateElement e
                 (\<lambda>b. b\<lparr>ratingStatus := Some st, ratingDescription := Some desc,
                         sloppinessScore := Some (rating_score r)\<rparr>) w;
          w2 = filterSingleTweet e (setScoreIndicator e (Some (rating_score r)) st desc w1);
          w3 = saveTweetRatings
                 (w2\<lparr>tweetIDRatingCache := (tweetIDRatingCache w2)(tweetId \<mapsto>
                      \<lparr>tweetContent = context, score = rating_score r,
                       description = rating_content r\<rparr>)\<rparr>);
          w4 = filterSingleTweet e (setScoreIndicator e (Some (rating_score r)) st desc w3)
      in if rating_error r then forgetProcessed tweetId w4 else w4)"

text \<open>
  \<open>delayedProcessTweet(tweetArticle, tweetId)\<close>, run to its end. The script calls
  \<open>rateTweetWithOpenRouter\<close> with four arguments, so \<open>maxRetries\<close> has its default 3.
\<close>

definition delayedProcessTweet :: "transport \<Rightarrow> json_parse \<Rightarrow> nat \<Rightarrow> string \<Rightarrow> world \<Rightarrow> world" where
  "delayedProcessTweet net parse e tweetId w =
     (let a = elements w e
      in if apiKey w = [] then
           forgetProcessed tweetId
             (filterSingleTweet e
                (setScoreIndicator e (Some 5) ErrorStatus ''No API key''
                   (updateElement e
                      (\<lambda>b. b\<lparr>ratingStatus := Some ErrorStatus,
                              ratingDescription := Some ''No API key''\<rparr>) w)))
         else if authorAllowListed w a then
           filterSingleTweet e
             (setScoreIndicator e (Some 10) Blacklisted ''User is blacklisted''
                (updateElement e
                   (\<lambda>b. b\<lparr>sloppinessScore := Some 10, blacklistedFlag := True,
                           ratingStatus := Some Blacklisted,
                           ratingDescription := Some ''Blacklisted user''\<rparr>) w))
         else
           (case applyTweetCachedRating e w of
              (True, w1) \<Rightarrow> w1
            | (False, _) \<Rightarrow>
                if fullContext a = [] then
                  forgetProcessed tweetId
                    (if sloppinessScore a = None then
                       filterSingleTweet e
                         (setScoreIndicator e (Some 5) ErrorStatus ''Error processing tweet''
                            (updateElement e
                               (\<lambda>b. b\<lparr>sloppinessScore := Some 5,
                                       ratingStatus := Some ErrorStatus,
                                       ratingDescription := Some ''error processing tweet''\<rparr>) w))
                     else w)
                else
                  (let (r, w1) = rateTweetWithOpenRouter net parse (fullContext a) tweetId 3 w
                   in applyRating e tweetId (fullContext a) r w1)))"

text \<open>The timer that is due first fires: the clock reaches its due time and the callback
  runs \<open>delayedProcessTweet\<close>.\<close>

definition fireTimer :: "transport \<Rightarrow> json_parse \<Rightarrow> world \<Rightarrow> world" where
  "fireTimer net parse w =
     (case timers w of
        [] \<Rightarrow> w
      | (due, e, tweetId) # rest \<Rightarrow>
          delayedProcessTweet net parse e tweetId (w\<lparr>timers := rest, clock := max (clock w) due\<rparr>))"

subsection \<open>Field lemmas\<close>

lemma setScoreIndicator_fields [simp]:
  "processedTweets (setScoreIndicator e sc st d w) = processedTweets w"
  "tweetIDRatingCache (setScoreIndicator e sc st d w) = tweetIDRatingCache w"
  "timers (setScoreIndicator e sc st d w) = timers w"
  "clock (setScoreIndicator e sc st d w) = clock w"
  "dispatched (setScoreIndicator e sc st d w) = dispatched w"
  "blacklistedHandles (setScoreIndicator e sc st d w) = blacklistedHandles w"
  "filterThreshold (setScoreIndicator e sc st d w) = filterThreshold w"
  "log (setScoreIndicator e sc st d w) = log w @ [SetIndicator e sc st]"
  by (simp_all add: setScoreIndicator_def updateElement_def)

lemma setScoreIndicator_elements [simp]:
  "elements (setScoreIndicator e sc st d w) =
     (elements w)(e := (elements w e)\<lparr>scoreIndicator := Some (indicatorFor sc st d)\<rparr>)"
  by (simp add: setScoreIndicator_def updateElement_def)

lemma updateElement_fields [simp]:
  "processedTweets (updateElement e f w) = processedTweets w"
  "tweetIDRatingCache (updateElement e f w) = tweetIDRatingCache w"
  "timers (updateElement e f w) = timers w"
  "clock (updateElement e f w) = clock w"
  "dispatched (updateElement e f w) = dispatched w"
  "blacklistedHandles (updateElement e f w) = blacklistedHandles w"
  "filterThreshold (updateElement e f w) = filterThreshold w"
  "log (updateElement e f w) = log w"
  "elements (updateElement e f w) = (elements w)(e := f (elements w e))"
  by (simp_all add: updateElement_def)

lemma filterSingleTweet_fields [simp]:
  "processedTweets (filterSingleTweet e w) = processedTweets w"
  "tweetIDRatingCache (filterSingleTweet e w) = tweetIDRatingCache w"
  "timers (filterSingleTweet e w) = timers w"
  "clock (filterSingleTweet e w) = clock w"
  "dispatched (filterSingleTweet e w) = dispatched w"
  "blacklistedHandles (filterSingleTweet e w) = blacklistedHandles w"
  by (simp_all add: filterSingleTweet_def Let_def)

text \<open>The second of two calls in a row.\<close>

lemma schedule_marked_with_indicator_noop:
  assumes "tweetID (elements w e) \<in> processedTweets w"
    and "scoreIndicator (elements w e) \<noteq> None"
    and "\<not> authorAllowListed w (elements w e)"
    and "tweetIDRatingCache w (tweetID (elements w e)) = None"
  shows "scheduleTweetProcessing e w = w"
  using assms by (auto simp: scheduleTweetProcessing_def Let_def)

lemma markPendingAndSchedule_effect:
  "processedTweets (markPendingAndSchedule e t w) = insert t (processedTweets w)"
  "timers (markPendingAndSchedule e t w) = timers w @ [(clock w + PROCESSING_DELAY_MS, e, t)]"
  "tweetIDRatingCache (markPendingAndSchedule e t w) = tweetIDRatingCache w"
  "blacklistedHandles (markPendingAndSchedule e t w) = blacklistedHandles w"
  "clock (markPendingAndSchedule e t w) = clock w"
  "dispatched (markPendingAndSchedule e t w) = dispatched w"
  "elements (markPendingAndSchedule e t w) =
     (elements w)(e := (elements w e)\<lparr>ratingStatus := Some Pending,
        scoreIndicator := Some (indicatorFor None Pending [])\<rparr>)"
  by (simp_all add: markPendingAndSchedule_def Let_def)



lemma initialWorld_fields [simp]:
  "processedTweets initialWorld = {}"
  "tweetIDRatingCache initialWorld = Map.empty"
  "blacklistedHandles initialWorld = []"
  "apiKey initialWorld = ''sk-or-key''"
  "filterThreshold initialWorld = 1"
  "lastAPICallTime initialWorld = 0"
  "clock initialWorld = 1000000"
  "timers initialWorld = []"
  "elements initialWorld e = freshArticle ''1001'' [''alice'']"
  by (simp_all add: initialWorld_def)

lemma freshArticle_fields [simp]:
  "tweetID (freshArticle t hs) = t"
  "handleLinks (freshArticle t hs) = hs"
  "scoreIndicator (freshArticle t hs) = None"
  "sloppinessScore (freshArticle t hs) = None"
  "ratingStatus (freshArticle t hs) = None"
  "fullContext (freshArticle t hs) = ''[TWEET]''"
  by (simp_all add: freshArticle_def)

lemma no_list_no_allow [simp]: "blacklistedHandles w = [] \<Longrightarrow> \<not> authorAllowListed w a"
  by (simp add: authorAllowListed_def isUserBlacklisted_def)



subsection \<open>What the retry loop leaves alone\<close>

definition sameCoordinatorState :: "world \<Rightarrow> world \<Rightarrow> bool" where
  "sameCoordinatorState w w' \<longleftrightarrow>
     processedTweets w' = processedTweets w \<and> elements w' = elements w \<and>
     timers w' = timers w \<and> blacklistedHandles w' = blacklistedHandles w \<and>
     apiKey w' = apiKey w \<and> filterThreshold w' = filterThreshold w"

lemma sameCoordinatorState_refl [simp]: "sameCoordinatorState w w"
  by (simp add: sameCoordinatorState_def)

lemma sameCoordinatorState_trans:
  "sameCoordinatorState w w1 \<Longrightarrow> sameCoordinatorState w1 w2 \<Longrightarrow> sameCoordinatorState w w2"
  by (simp add: sameCoordinatorState_def)

lemma afterAttempt_same: "sameCoordinatorState w (afterAttempt net parse w)"
  by (simp add: sameCoordinatorState_def afterAttempt_def sendRequest_def acquire_def Let_def
      split: prod.splits)

lemma afterAttempt_cache [simp]:
  "tweetIDRatingCache (afterAttempt net parse w) = tweetIDRatingCache w"
  by (simp add: afterAttempt_def sendRequest_def acquire_def Let_def split: prod.splits)

lemma afterBackoff_same: "sameCoordinatorState w (afterBackoff k w)"
  by (simp add: sameCoordinatorState_def afterBackoff_def)

lemma afterBackoff_cache [simp]:
  "tweetIDRatingCache (afterBackoff k w) = tweetIDRatingCache w"
  by (simp add: afterBackoff_def)

lemma retryLoop_same:
  "sameCoordinatorState w (snd (retryLoop net parse tweetText tweetId maxRetries attempt w))"
proof (induction "maxRetries - attempt" arbitrary: attempt w)
  case 0
  then show ?case by (simp add: retryLoop_exhausted)
next
  case (Suc m)
  then have lt: "attempt < maxRetries" by simp
  have att: "sameCoordinatorState w (afterAttempt net parse w)"
    by (rule afterAttempt_same)
  show ?case
  proof (cases "attemptScore (getCompletion parse 30000 (fst (net (dispatched w))))")
    case (Some p)
    obtain sc content where p: "p = (sc, content)" by (cases p)
    have "attemptScore (getCompletion parse 30000 (fst (net (dispatched w)))) = Some (sc, content)"
      using Some p by simp
    then show ?thesis
      using lt att by (simp add: retryLoop_success saveTweetRatings_def sameCoordinatorState_def)
  next
    case None
    show ?thesis
    proof (cases "attempt + 1 < maxRetries")
      case True
      let ?w2 = "afterBackoff (attempt + 1) (afterAttempt net parse w)"
      have "m = maxRetries - (attempt + 1)" using Suc.hyps(2) by simp
      then have "sameCoordinatorState ?w2
          (snd (retryLoop net parse tweetText tweetId maxRetries (attempt + 1) ?w2))"
        by (rule Suc.hyps(1))
      moreover have "sameCoordinatorState w ?w2"
        using att afterBackoff_same by (rule sameCoordinatorState_trans)
      ultimately have "sameCoordinatorState w
          (snd (retryLoop net parse tweetText tweetId maxRetries (attempt + 1) ?w2))"
        by (rule sameCoordinatorState_trans [rotated])
      then show ?thesis
        using True None by (simp add: retryLoop_fail_retry)
    next
      case False
      then show ?thesis
        using lt None att by (simp add: retryLoop_fail_last)
    qed
  qed
qed

text \<open>When every remaining attempt yields no score, the loop sends \<open>maxRetries - attempt\<close>
  requests, returns the terminal failure and leaves the cache as it was.\<close>

lemma retryLoop_all_fail:
  assumes "\<forall>k. attempt < k \<and> k \<le> maxRetries \<longrightarrow>
             attemptScore (getCompletion parse 30000
               (fst (net (dispatched w + (k - attempt - 1))))) = None"
  shows "fst (retryLoop net parse tweetText tweetId maxRetries attempt w) = failedRating \<and>
         dispatched (snd (retryLoop net parse tweetText tweetId maxRetries attempt w)) =
           dispatched w + (maxRetries - attempt) \<and>
         tweetIDRatingCache (snd (retryLoop net parse tweetText tweetId maxRetries attempt w)) =
           tweetIDRatingCache w"
  using assms
proof (induction "maxRetries - attempt" arbitrary: attempt w)
  case 0
  then show ?case by (simp add: retryLoop_exhausted)
next
  case (Suc m)
  then have lt: "attempt < maxRetries" by simp
  have "attempt < attempt + 1 \<and> attempt + 1 \<le> maxRetries"
    using lt by simp
  then have "attemptScore (getCompletion parse 30000
      (fst (net (dispatched w + (attempt + 1 - attempt - 1))))) = None"
    by (rule Suc.prems [rule_format])
  then have fail: "attemptScore (getCompletion parse 30000 (fst (net (dispatched w)))) = None"
    by simp
  show ?case
  proof (cases "attempt + 1 < maxRetries")
    case True
    let ?w2 = "afterBackoff (attempt + 1) (afterAttempt net parse w)"
    have m: "m = maxRetries - (attempt + 1)" using Suc.hyps(2) by simp
    have d2: "dispatched ?w2 = dispatched w + 1" by simp
    have later: "\<forall>k. attempt + 1 < k \<and> k \<le> maxRetries \<longrightarrow>
        attemptScore (getCompletion parse 30000
          (fst (net (dispatched ?w2 + (k - (attempt + 1) - 1))))) = None"
    proof (intro allI impI)
      fix k assume k: "attempt + 1 < k \<and> k \<le> maxRetries"
      then have eq: "dispatched ?w2 + (k - (attempt + 1) - 1) = dispatched w + (k - attempt - 1)"
        unfolding d2 by arith
      have "attempt < k \<and> k \<le> maxRetries" using k by simp
      then have f: "attemptScore (getCompletion parse 30000
          (fst (net (dispatched w + (k - attempt - 1))))) = None"
        by (rule Suc.prems [rule_format])
      show "attemptScore (getCompletion parse 30000
          (fst (net (dispatched ?w2 + (k - (attempt + 1) - 1))))) = None"
        by (subst eq) (rule f)
    qed
    have count: "dispatched ?w2 + (maxRetries - (attempt + 1)) = dispatched w + (maxRetries - attempt)"
      unfolding d2 using True by arith
    show ?thesis
      using Suc.hyps(1) [OF m later] True fail count
      by (simp add: retryLoop_fail_retry)
  next
    case False
    then have "maxRetries - attempt = 1" using lt by simp
    then show ?thesis
      using lt False fail by (simp add: retryLoop_fail_last)
  qed
qed

lemma failingTransport_fails [simp]:
  "attemptScore (getCompletion parse 30000 (fst (failingTransport n))) = None"
  by (simp add: failingTransport_def getCompletion_def attemptScore_def)

lemma applyTweetCachedRating_miss:
  "\<not> authorAllowListed w (elements w e) \<Longrightarrow> tweetIDRatingCache w (tweetID (elements w e)) = None \<Longrightarrow>
   applyTweetCachedRating e w = (False, w)"
  by (simp add: applyTweetCachedRating_def Let_def)

lemma applyRating_error_fields:
  assumes "rating_error r"
  shows "processedTweets (applyRating e t c r w) = processedTweets w - {t}"
    and "tweetIDRatingCache (applyRating e t c r w) =
           (tweetIDRatingCache w)(t \<mapsto> \<lparr>tweetContent = c, score = rating_score r,
                                         description = rating_content r\<rparr>)"
    and "timers (applyRating e t c r w) = timers w"
    and "dispatched (applyRating e t c r w) = dispatched w"
    and "blacklistedHandles (applyRating e t c r w) = blacklistedHandles w"
    and "ratingStatus (elements (applyRating e t c r w) e) = Some ErrorStatus"
    and "sloppinessScore (elements (applyRating e t c r w) e) = Some (rating_score r)"
    and "tweetID (elements (applyRating e t c r w) e) = tweetID (elements w e)"
    and "handleLinks (elements (applyRating e t c r w) e) = handleLinks (elements w e)"
  using assms
  by (simp_all add: applyRating_def Let_def forgetProcessed_def saveTweetRatings_def
      filterSingleTweet_def)

text \<open>A pipeline whose three attempts all fail: the marker is cleared, and the fallback
  score 5 is written to the cache.\<close>

lemma delayedProcessTweet_all_fail:
  assumes "apiKey w \<noteq> []"
    and "\<not> authorAllowListed w (elements w e)"
    and "tweetIDRatingCache w (tweetID (elements w e)) = None"
    and "fullContext (elements w e) \<noteq> []"
    and "\<forall>k. 1 \<le> k \<and> k \<le> 3 \<longrightarrow> attemptFails net parse w k"
  shows "tweetID (elements w e) \<notin>
           processedTweets (delayedProcessTweet net parse e (tweetID (elements w e)) w)"
    and "tweetIDRatingCache (delayedProcessTweet net parse e (tweetID (elements w e)) w)
           (tweetID (elements w e)) =
         Some \<lparr>tweetContent = fullContext (elements w e), score = 5,
               description = ''Failed to get valid rating after multiple attempts''\<rparr>"
    and "dispatched (delayedProcessTweet net parse e (tweetID (elements w e)) w) = dispatched w + 3"
    and "timers (delayedProcessTweet net parse e (tweetID (elements w e)) w) = timers w"
    and "blacklistedHandles (delayedProcessTweet net parse e (tweetID (elements w e)) w) =
           blacklistedHandles w"
    and "ratingStatus (elements (delayedProcessTweet net parse e (tweetID (elements w e)) w) e) =
           Some ErrorStatus"
    and "tweetID (elements (delayedProcessTweet net parse e (tweetID (elements w e)) w) e) =
           tweetID (elements w e)"
    and "handleLinks (elements (delayedProcessTweet net parse e (tweetID (elements w e)) w) e) =
           handleLinks (elements w e)"
proof -
  let ?t = "tweetID (elements w e)"
  let ?c = "fullContext (elements w e)"
  obtain r w1 where run: "rateTweetWithOpenRouter net parse ?c ?t 3 w = (r, w1)"
    by (cases "rateTweetWithOpenRouter net parse ?c ?t 3 w")
  have fails: "\<forall>k. 0 < k \<and> k \<le> 3 \<longrightarrow>
      attemptScore (getCompletion parse 30000 (fst (net (dispatched w + (k - 0 - 1))))) = None"
    using assms(5) by (simp add: attemptFails_def Suc_le_eq)
  have loop: "fst (retryLoop net parse ?c ?t 3 0 w) = failedRating \<and>
      dispatched (snd (retryLoop net parse ?c ?t 3 0 w)) = dispatched w + (3 - 0) \<and>
      tweetIDRatingCache (snd (retryLoop net parse ?c ?t 3 0 w)) = tweetIDRatingCache w"
    using fails by (rule retryLoop_all_fail)
  have same: "sameCoordinatorState w (snd (retryLoop net parse ?c ?t 3 0 w))"
    by (rule retryLoop_same)
  have r: "r = failedRating" and d: "dispatched w1 = dispatched w + 3"
    and c: "tweetIDRatingCache w1 = tweetIDRatingCache w"
    and s: "sameCoordinatorState w w1"
    using loop same run by (simp_all add: rateTweetWithOpenRouter_def)
  have dp: "delayedProcessTweet net parse e ?t w = applyRating e ?t ?c failedRating w1"
    using assms(1-4) run r
    by (simp add: delayedProcessTweet_def Let_def applyTweetCachedRating_miss)
  have err: "rating_error failedRating"
    by (simp add: failedRating_def)
  show "?t \<notin> processedTweets (delayedProcessTweet net parse e ?t w)"
    unfolding dp by (simp add: applyRating_error_fields [OF err])
  show "tweetIDRatingCache (delayedProcessTweet net parse e ?t w) ?t =
         Some \<lparr>tweetContent = ?c, score = 5,
               description = ''Failed to get valid rating after multiple attempts''\<rparr>"
    unfolding dp by (subst applyRating_error_fields(2) [OF err]) (simp add: failedRating_def)
  show "dispatched (delayedProcessTweet net parse e ?t w) = dispatched w + 3"
    unfolding dp by (simp add: applyRating_error_fields [OF err] d)
  show "timers (delayedProcessTweet net parse e ?t w) = timers w"
    unfolding dp using s by (simp add: applyRating_error_fields [OF err] sameCoordinatorState_def)
  show "blacklistedHandles (delayedProcessTweet net parse e ?t w) = blacklistedHandles w"
    unfolding dp using s by (simp add: applyRating_error_fields [OF err] sameCoordinatorState_def)
  show "ratingStatus (elements (delayedProcessTweet net parse e ?t w) e) = Some ErrorStatus"
    unfolding dp by (simp add: applyRating_error_fields [OF err])
  show "tweetID (elements (delayedProcessTweet net parse e ?t w) e) = ?t"
    unfolding dp using s by (simp add: applyRating_error_fields [OF err] sameCoordinatorState_def)
  show "handleLinks (elements (delayedProcessTweet net parse e ?t w) e) = handleLinks (elements w e)"
    unfolding dp using s by (simp add: applyRating_error_fields [OF err] sameCoordinatorState_def)
qed

text \<open>A call for a tweet that has a cache entry applies the entry and starts no pipeline.\<close>

lemma schedule_cached:
  assumes "tweetID (elements w e) \<noteq> []"
    and "\<not> authorAllowListed w (elements w e)"
    and "tweetIDRatingCache w (tweetID (elements w e)) = Some entry"
  shows "timers (scheduleTweetProcessing e w) = timers w"
    and "dispatched (scheduleTweetProcessing e w) = dispatched w"
    and "processedTweets (scheduleTweetProcessing e w) = processedTweets w"
    and "ratingStatus (elements (scheduleTweetProcessing e w) e) = Some Cached"
    and "sloppinessScore (elements (scheduleTweetProcessing e w) e) = Some (score entry)"
  using assms
  by (simp_all add: scheduleTweetProcessing_def applyTweetCachedRating_def Let_def
      filterSingleTweet_def)

text \<open>
  Claim C3: when all \<open>maxRetries\<close> attempts fail, the loop returns score 5 with
  \<open>error = true\<close>, and the coordinator clears the in-flight marker so that a later call of
  \<open>schedule\<close> retries the item from attempt 1. The loop and the marker behave so
  (\<open>retryLoop_all_fail\<close>, \<open>delayedProcessTweet_all_fail\<close>), but
  \<open>delayedProcessTweet\<close> also writes the fallback result to \<open>tweetIDRatingCache\<close>: the
  later call finds the cache entry, shows the cached score 5 and starts no pipeline. Here the
  transport answers HTTP 500 to every request.
\<close>

theorem failed_rating_is_cached_not_retried:
  "(let w1 = scheduleTweetProcessing 1 initialWorld;
        w2 = fireTimer failingTransport rejectingParse w1;
        w3 = scheduleTweetProcessing 1 w2
    in dispatched w2 = 3 \<and>
       ''1001'' \<notin> processedTweets w2 \<and>
       ratingStatus (elements w2 1) = Some ErrorStatus \<and>
       tweetIDRatingCache w2 ''1001'' =
         Some \<lparr>tweetContent = ''[TWEET]'', score = 5,
               description = ''Failed to get valid rating after multiple attempts''\<rparr> \<and>
       timers w3 = [] \<and>
       dispatched w3 = 3 \<and>
       ratingStatus (elements w3 1) = Some Cached \<and>
       sloppinessScore (elements w3 1) = Some 5)"
proof -
  define w1 where "w1 = scheduleTweetProcessing 1 initialWorld"
  define due where "due = (w1\<lparr>timers := [], clock := max (clock w1) 1000500\<rparr>)"
  define w2 where "w2 = fireTimer failingTransport rejectingParse w1"
  define w3 where "w3 = scheduleTweetProcessing 1 w2"
  have w1: "w1 = markPendingAndSchedule 1 ''1001'' initialWorld"
    by (simp add: w1_def scheduleTweetProcessing_def Let_def)
  have t1: "timers w1 = [(1000500, 1, ''1001'')]"
    by (simp add: w1 markPendingAndSchedule_effect PROCESSING_DELAY_MS_def)
  have fire: "w2 = delayedProcessTweet failingTransport rejectingParse 1 ''1001'' due"
    by (simp add: w2_def fireTimer_def t1 due_def)
  have id: "tweetID (elements due 1) = ''1001''"
    and key: "apiKey due \<noteq> []"
    and list: "\<not> authorAllowListed due (elements due 1)"
    and cache: "tweetIDRatingCache due (tweetID (elements due 1)) = None"
    and ctx: "fullContext (elements due 1) = ''[TWEET]''"
    and disp: "dispatched due = 0"
    by (simp_all add: due_def w1 markPendingAndSchedule_effect markPendingAndSchedule_def Let_def
        setScoreIndicator_def updateElement_def)
  have ctx': "fullContext (elements due 1) \<noteq> []"
    using ctx by simp
  have fails: "\<forall>k. 1 \<le> k \<and> k \<le> 3 \<longrightarrow> attemptFails failingTransport rejectingParse due k"
    by (simp add: attemptFails_def)
  note run = delayedProcessTweet_all_fail [OF key list cache ctx' fails, unfolded id ctx, folded fire]
  have list2: "\<not> authorAllowListed w2 (elements w2 1)"
    by (rule no_list_no_allow) (simp add: run(5) due_def w1 markPendingAndSchedule_effect)
  have id2: "tweetID (elements w2 1) \<noteq> []"
    using run(7) by simp
  have cache2: "tweetIDRatingCache w2 (tweetID (elements w2 1)) =
      Some \<lparr>tweetContent = ''[TWEET]'', score = 5,
            description = ''Failed to get valid rating after multiple attempts''\<rparr>"
    using run(2) run(7) by simp
  note again = schedule_cached [OF id2 list2 cache2, folded w3_def]
  have "timers w2 = []"
    using run(4) by (simp add: due_def)
  then have "timers w3 = []"
    using again(1) by simp
  moreover have "dispatched w2 = 3"
    using run(3) disp by simp
  moreover have "dispatched w3 = 3"
    using again(2) \<open>dispatched w2 = 3\<close> by simp
  ultimately show ?thesis
    using run(1) run(2) run(6) again(4) again(5)
    unfolding Let_def w1_def [symmetric] w2_def [symmetric] w3_def [symmetric]
    by simp
qed

subsection \<open>Allow-listed authors\<close>

text \<open>For an allow-listed author \<open>scheduleTweetProcessing\<close> starts no pipeline and sends no
  request; it stores the score 10 and the status \<open>rated\<close>, and the indicator, first set with
  the status \<open>blacklisted\<close>, is set again from the dataset by \<open>filterSingleTweet\<close>.\<close>

lemma schedule_allow_listed:
  assumes "tweetID (elements w e) \<noteq> []" and "authorAllowListed w (elements w e)"
  shows "timers (scheduleTweetProcessing e w) = timers w"
    and "dispatched (scheduleTweetProcessing e w) = dispatched w"
    and "processedTweets (scheduleTweetProcessing e w) = processedTweets w"
    and "sloppinessScore (elements (scheduleTweetProcessing e w) e) = Some 10"
    and "blacklistedFlag (elements (scheduleTweetProcessing e w) e)"
    and "ratingStatus (elements (scheduleTweetProcessing e w) e) = Some Rated"
    and "scoreIndicator (elements (scheduleTweetProcessing e w) e) =
           Some \<lparr>ind_class = Rated, ind_text = ScoreText (Some 10),
                 ind_description = ''Whitelisted user''\<rparr>"
    and "log (scheduleTweetProcessing e w) =
           log w @ [SetIndicator e (Some 10) Blacklisted, SetIndicator e (Some 10) Rated]"
  using assms
  by (simp_all add: scheduleTweetProcessing_def Let_def filterSingleTweet_def indicatorFor_def
      orEmpty_def)

text \<open>The two other places that handle an allow-listed author store the status
  \<open>blacklisted\<close>.\<close>

lemma delayedProcessTweet_allow_listed:
  assumes "apiKey w \<noteq> []" and "authorAllowListed w (elements w e)"
  shows "ratingStatus (elements (delayedProcessTweet net parse e t w) e) = Some Blacklisted"
    and "scoreIndicator (elements (delayedProcessTweet net parse e t w) e) =
           Some \<lparr>ind_class = Blacklisted, ind_text = ScoreText (Some 10),
                 ind_description = ''Blacklisted user''\<rparr>"
    and "dispatched (delayedProcessTweet net parse e t w) = dispatched w"
  using assms
  by (simp_all add: delayedProcessTweet_def Let_def filterSingleTweet_def indicatorFor_def
      orEmpty_def)

lemma applyTweetCachedRating_allow_listed:
  assumes "authorAllowListed w (elements w e)"
  shows "ratingStatus (elements (snd (applyTweetCachedRating e w)) e) = Some Blacklisted"
  using assms
  by (simp add: applyTweetCachedRating_def Let_def filterSingleTweet_def)

text \<open>A session whose allow-list holds the handle \<open>Alice\<close>, followed by a blank; the
  articles are by \<open>alice\<close>.\<close>

definition allowListWorld :: world where
  "allowListWorld = initialWorld\<lparr>blacklistedHandles := [''Alice '']\<rparr>"

lemma allowListWorld_listed: "authorAllowListed allowListWorld (elements allowListWorld e)"
  by (simp add: allowListWorld_def authorAllowListed_def userHandleOf_def getUserHandles_def
      isUserBlacklisted_def trim_def toLowerCase_def lowerChar_def isSpace_def)

text \<open>
  Claim C6: for an item whose author is on the allow-list (compared without case, after
  trimming), \<open>schedule\<close> never calls the transport and at once yields score 10 with the
  processing status \<open>blacklisted\<close>. The script makes no request and stores score 10, but
  the status it stores in \<open>dataset.ratingStatus\<close> is \<open>rated\<close>, and the indicator ends in
  the \<open>rated\<close> class: the call \<open>setScoreIndicator(tweetArticle, 10, 'blacklisted', ...)\<close>
  is followed by \<open>filterSingleTweet\<close>, which sets the indicator again from the dataset.
\<close>

theorem schedule_allow_listed_stores_rated:
  "authorAllowListed allowListWorld (elements allowListWorld 1) \<and>
   timers (scheduleTweetProcessing 1 allowListWorld) = [] \<and>
   dispatched (scheduleTweetProcessing 1 allowListWorld) = 0 \<and>
   sloppinessScore (elements (scheduleTweetProcessing 1 allowListWorld) 1) = Some 10 \<and>
   ratingStatus (elements (scheduleTweetProcessing 1 allowListWorld) 1) = Some Rated \<and>
   scoreIndicator (elements (scheduleTweetProcessing 1 allowListWorld) 1) =
     Some \<lparr>ind_class = Rated, ind_text = ScoreText (Some 10),
           ind_description = ''Whitelisted user''\<rparr> \<and>
   log (scheduleTweetProcessing 1 allowListWorld) =
     [SetIndicator 1 (Some 10) Blacklisted, SetIndicator 1 (Some 10) Rated]"
proof -
  have id: "tweetID (elements allowListWorld 1) \<noteq> []"
    by (simp add: allowListWorld_def)
  note facts = schedule_allow_listed [OF id allowListWorld_listed]
  have start: "timers allowListWorld = []" "dispatched allowListWorld = 0" "log allowListWorld = []"
    by (simp_all add: allowListWorld_def)
  show ?thesis
    unfolding facts start using allowListWorld_listed [of 1] by simp
qed

subsection \<open>A pipeline that succeeds at the first attempt\<close>

definition goodBody :: completion_response where
  "goodBody =
     \<lparr>top_content = None,
      choices = Some [\<lparr>message_content = Some ''Good tweet. SCORE_8'',
                       native_finish_reason = None\<rparr>]\<rparr>"

definition goodTransport :: transport where
  "goodTransport = (\<lambda>_. (OnLoad 200 ''(body)'', 100))"

definition goodParse :: json_parse where
  "goodParse = (\<lambda>_. Inr goodBody)"

lemma goodTransport_scores [simp]:
  "attemptScore (getCompletion goodParse 30000 (fst (goodTransport n))) =
     Some (8, ''Good tweet. SCORE_8'')"
  by (simp add: goodTransport_def goodParse_def goodBody_def getCompletion_def attemptScore_def
      firstMessageContent_def extractScoreUserscript_def matchNonSpaceCORE_def startsWith_def
      isSpace_def isDigit_def parseInt_def digitVal_def)

lemma applyRating_success_fields:
  assumes "\<not> rating_error r"
  shows "processedTweets (applyRating e t c r w) = processedTweets w"
    and "tweetIDRatingCache (applyRating e t c r w) =
           (tweetIDRatingCache w)(t \<mapsto> \<lparr>tweetContent = c, score = rating_score r,
                                         description = rating_content r\<rparr>)"
    and "timers (applyRating e t c r w) = timers w"
    and "dispatched (applyRating e t c r w) = dispatched w"
    and "blacklistedHandles (applyRating e t c r w) = blacklistedHandles w"
    and "ratingStatus (elements (applyRating e t c r w) e) = Some Rated"
    and "e2 \<noteq> e \<Longrightarrow> elements (applyRating e t c r w) e2 = elements w e2"
  using assms
  by (simp_all add: applyRating_def Let_def saveTweetRatings_def filterSingleTweet_def)

lemma delayedProcessTweet_first_success:
  assumes "apiKey w \<noteq> []"
    and "\<not> authorAllowListed w (elements w e)"
    and "tweetIDRatingCache w (tweetID (elements w e)) = None"
    and "fullContext (elements w e) \<noteq> []"
    and "attemptScore (getCompletion parse 30000 (fst (net (dispatched w)))) = Some (sc, content)"
  shows "processedTweets (delayedProcessTweet net parse e (tweetID (elements w e)) w) =
           processedTweets w"
    and "tweetIDRatingCache (delayedProcessTweet net parse e (tweetID (elements w e)) w)
           (tweetID (elements w e)) =
         Some \<lparr>tweetContent = fullContext (elements w e), score = sc, description = content\<rparr>"
    and "timers (delayedProcessTweet net parse e (tweetID (elements w e)) w) = timers w"
    and "dispatched (delayedProcessTweet net parse e (tweetID (elements w e)) w) = dispatched w + 1"
    and "blacklistedHandles (delayedProcessTweet net parse e (tweetID (elements w e)) w) =
           blacklistedHandles w"
    and "ratingStatus (elements (delayedProcessTweet net parse e (tweetID (elements w e)) w) e) =
           Some Rated"
    and "e2 \<noteq> e \<Longrightarrow>
         elements (delayedProcessTweet net parse e (tweetID (elements w e)) w) e2 = elements w e2"
proof -
  let ?t = "tweetID (elements w e)"
  let ?c = "fullContext (elements w e)"
  let ?r = "\<lparr>rating_score = sc, rating_content = content, rating_error = False\<rparr>"
  let ?w1 = "saveTweetRatings
      ((afterAttempt net parse w)\<lparr>tweetIDRatingCache :=
         (tweetIDRatingCache (afterAttempt net parse w))(?t \<mapsto>
           \<lparr>tweetContent = ?c, score = sc, description = content\<rparr>)\<rparr>)"
  have run: "rateTweetWithOpenRouter net parse ?c ?t 3 w = (?r, ?w1)"
    using assms(5) by (simp add: rateTweetWithOpenRouter_def retryLoop_success)
  have dp: "delayedProcessTweet net parse e ?t w = applyRating e ?t ?c ?r ?w1"
    using assms(1-4) run
    by (simp add: delayedProcessTweet_def Let_def applyTweetCachedRating_miss)
  have ok: "\<not> rating_error ?r"
    by simp
  have same: "sameCoordinatorState w (afterAttempt net parse w)"
    by (rule afterAttempt_same)
  show "processedTweets (delayedProcessTweet net parse e ?t w) = processedTweets w"
    unfolding dp using same
    by (simp add: applyRating_success_fields [OF ok] saveTweetRatings_def sameCoordinatorState_def)
  show "tweetIDRatingCache (delayedProcessTweet net parse e ?t w) ?t =
         Some \<lparr>tweetContent = ?c, score = sc, description = content\<rparr>"
    unfolding dp by (simp add: applyRating_success_fields [OF ok])
  show "timers (delayedProcessTweet net parse e ?t w) = timers w"
    unfolding dp using same
    by (simp add: applyRating_success_fields [OF ok] saveTweetRatings_def sameCoordinatorState_def)
  show "dispatched (delayedProcessTweet net parse e ?t w) = dispatched w + 1"
    unfolding dp
    by (simp add: applyRating_success_fields [OF ok] saveTweetRatings_def)
  show "blacklistedHandles (delayedProcessTweet net parse e ?t w) = blacklistedHandles w"
    unfolding dp using same
    by (simp add: applyRating_success_fields [OF ok] saveTweetRatings_def sameCoordinatorState_def)
  show "ratingStatus (elements (delayedProcessTweet net parse e ?t w) e) = Some Rated"
    unfolding dp by (simp add: applyRating_success_fields [OF ok])
  show "elements (delayedProcessTweet net parse e ?t w) e2 = elements w e2" if "e2 \<noteq> e"
    unfolding dp using same that
    by (simp add: applyRating_success_fields [OF ok] saveTweetRatings_def sameCoordinatorState_def)
qed

subsection \<open>Marked items without an indicator\<close>

text \<open>
  Claim C10: when \<open>schedule\<close> is called for an item whose id is in the processed set and
  whose article has no score indicator, the id is removed from the set and the item is
  scheduled again; de-duplication of a marked item holds only while its indicator exists.
  The check sits behind the two fast paths, so this is the behaviour for an item with a valid
  id whose author is not allow-listed and that has no cache entry: without an indicator the
  call is the one for an unmarked item, from the set without the id (one more timer, the id
  in the set again); with an indicator it changes nothing.
\<close>

theorem schedule_marked_item:
  assumes "tweetID (elements w e) \<noteq> []"
    and "\<not> authorAllowListed w (elements w e)"
    and "tweetIDRatingCache w (tweetID (elements w e)) = None"
    and "tweetID (elements w e) \<in> processedTweets w"
  shows "(scoreIndicator (elements w e) = None \<longrightarrow>
            scheduleTweetProcessing e w =
              markPendingAndSchedule e (tweetID (elements w e))
                (w\<lparr>processedTweets := processedTweets w - {tweetID (elements w e)}\<rparr>) \<and>
            timers (scheduleTweetProcessing e w) =
              timers w @ [(clock w + PROCESSING_DELAY_MS, e, tweetID (elements w e))] \<and>
            processedTweets (scheduleTweetProcessing e w) = processedTweets w \<and>
            ratingStatus (elements (scheduleTweetProcessing e w) e) = Some Pending) \<and>
         (scoreIndicator (elements w e) \<noteq> None \<longrightarrow> scheduleTweetProcessing e w = w)"
proof (intro conjI impI)
  assume none: "scoreIndicator (elements w e) = None"
  show eq: "scheduleTweetProcessing e w =
      markPendingAndSchedule e (tweetID (elements w e))
        (w\<lparr>processedTweets := processedTweets w - {tweetID (elements w e)}\<rparr>)"
    using assms none by (simp add: scheduleTweetProcessing_def Let_def)
  show "timers (scheduleTweetProcessing e w) =
      timers w @ [(clock w + PROCESSING_DELAY_MS, e, tweetID (elements w e))]"
    unfolding eq by (simp add: markPendingAndSchedule_effect)
  show "processedTweets (scheduleTweetProcessing e w) = processedTweets w"
    unfolding eq using assms(4) by (auto simp: markPendingAndSchedule_effect)
  show "ratingStatus (elements (scheduleTweetProcessing e w) e) = Some Pending"
    unfolding eq by (simp add: markPendingAndSchedule_effect)
next
  assume "scoreIndicator (elements w e) \<noteq> None"
  then show "scheduleTweetProcessing e w = w"
    using assms by (intro schedule_marked_with_indicator_noop)
qed

text \<open>After the first call for article 1, the tweet is marked; article 2 of the same tweet
  has no indicator, article 1 has one.\<close>

theorem schedule_marked_item_witness:
  "timers (scheduleTweetProcessing 2 (scheduleTweetProcessing 1 initialWorld)) =
     [(1000500, 1, ''1001''), (1000500, 2, ''1001'')] \<and>
   processedTweets (scheduleTweetProcessing 2 (scheduleTweetProcessing 1 initialWorld)) = {''1001''} \<and>
   scheduleTweetProcessing 1 (scheduleTweetProcessing 1 initialWorld) =
     scheduleTweetProcessing 1 initialWorld"
proof -
  have w1: "scheduleTweetProcessing 1 initialWorld = markPendingAndSchedule 1 ''1001'' initialWorld"
    by (simp add: scheduleTweetProcessing_def Let_def)
  show ?thesis
    using schedule_marked_item [of "scheduleTweetProcessing 1 initialWorld" 2]
      schedule_marked_item [of "scheduleTweetProcessing 1 initialWorld" 1]
    unfolding w1
    by (simp add: markPendingAndSchedule_effect PROCESSING_DELAY_MS_def)
qed

text \<open>
  A marked item with a cache entry: article 1 was scheduled and rated (score 8), so the
  tweet is in the processed set and in the cache. Article 2 of the same tweet has no
  indicator; the call for it applies the cached rating, leaves the id in the set and starts
  no pipeline.
\<close>

theorem schedule_marked_cached_item_not_rescheduled:
  "(let w2 = fireTimer goodTransport goodParse (scheduleTweetProcessing 1 initialWorld);
        w3 = scheduleTweetProcessing 2 w2
    in tweetID (elements w2 2) = ''1001'' \<and>
       ''1001'' \<in> processedTweets w2 \<and>
       scoreIndicator (elements w2 2) = None \<and>
       timers w2 = [] \<and>
       timers w3 = [] \<and>
       dispatched w3 = dispatched w2 \<and>
       ''1001'' \<in> processedTweets w3 \<and>
       ratingStatus (elements w3 2) = Some Cached)"
proof -
  define w1 where "w1 = scheduleTweetProcessing 1 initialWorld"
  define due where "due = (w1\<lparr>timers := [], clock := max (clock w1) 1000500\<rparr>)"
  define w2 where "w2 = fireTimer goodTransport goodParse w1"
  define w3 where "w3 = scheduleTweetProcessing 2 w2"
  have w1: "w1 = markPendingAndSchedule 1 ''1001'' initialWorld"
    by (simp add: w1_def scheduleTweetProcessing_def Let_def)
  have t1: "timers w1 = [(1000500, 1, ''1001'')]"
    by (simp add: w1 markPendingAndSchedule_effect PROCESSING_DELAY_MS_def)
  have fire: "w2 = delayedProcessTweet goodTransport goodParse 1 ''1001'' due"
    by (simp add: w2_def fireTimer_def t1 due_def)
  have id: "tweetID (elements due 1) = ''1001''"
    and key: "apiKey due \<noteq> []"
    and list: "\<not> authorAllowListed due (elements due 1)"
    and cache: "tweetIDRatingCache due (tweetID (elements due 1)) = None"
    and ctx: "fullContext (elements due 1) = ''[TWEET]''"
    and marked: "processedTweets due = {''1001''}"
    and el2: "elements due 2 = freshArticle ''1001'' [''alice'']"
    and lst: "blacklistedHandles due = []"
    and tm: "timers due = []"
    by (simp_all add: due_def w1 markPendingAndSchedule_effect markPendingAndSchedule_def Let_def
        setScoreIndicator_def updateElement_def)
  have ctx': "fullContext (elements due 1) \<noteq> []"
    using ctx by simp
  note run = delayedProcessTweet_first_success
    [where net = goodTransport and parse = goodParse and w = due and e = 1,
      OF key list cache ctx' goodTransport_scores, unfolded id ctx, folded fire]
  have two: "(2::nat) \<noteq> 1" by simp
  have el: "elements w2 2 = freshArticle ''1001'' [''alice'']"
    using run(7) [OF two] el2 by simp
  have list2: "\<not> authorAllowListed w2 (elements w2 2)"
    by (rule no_list_no_allow) (simp add: run(5) lst)
  have id2: "tweetID (elements w2 2) \<noteq> []"
    by (simp add: el)
  have cache2: "tweetIDRatingCache w2 (tweetID (elements w2 2)) =
      Some \<lparr>tweetContent = ''[TWEET]'', score = 8, description = ''Good tweet. SCORE_8''\<rparr>"
    using run(2) by (simp add: el)
  note again = schedule_cached [OF id2 list2 cache2, folded w3_def]
  have "tweetID (elements w2 2) = ''1001''" "scoreIndicator (elements w2 2) = None"
    by (simp_all add: el)
  moreover have "''1001'' \<in> processedTweets w2" "timers w2 = []"
    using run(1) run(3) marked tm by simp_all
  moreover have "timers w3 = []" "dispatched w3 = dispatched w2" "''1001'' \<in> processedTweets w3"
    using again(1-3) \<open>timers w2 = []\<close> \<open>''1001'' \<in> processedTweets w2\<close> by simp_all
  ultimately show ?thesis
    using again(4)
    unfolding Let_def w1_def [symmetric] w2_def [symmetric] w3_def [symmetric]
    by simp
qed

section \<open>The stream decoder of \<open>getCompletionStreaming\<close>\<close>

text \<open>
  The decoder is the code that \<open>onloadstart\<close> runs: the loop \<open>processStream\<close> over
  \<open>reader.read()\<close> and the inactivity timer \<open>streamTimeout\<close>. (The handlers
  \<open>onerror\<close> and \<open>ontimeout\<close> of the request belong to the transport.) Time is in
  milliseconds; every event of the reader carries the time at which \<open>reader.read()\<close>
  settles.
\<close>

datatype read_result = Chunk string | ReadDone | ReadError string

type_synonym stream_event = "int \<times> read_result"

text \<open>What the decoder reads of a parsed event: whether
  \<open>parsed.choices && parsed.choices[0] && parsed.choices[0].delta\<close> holds, and
  \<open>parsed.choices[0].delta.content || ""\<close>.\<close>

record sse_json =
  has_delta :: bool
  delta_content :: string

text \<open>\<open>JSON.parse\<close> on the payload of a line, \<open>None\<close> when it throws.\<close>

type_synonym sse_parse = "string \<Rightarrow> sse_json option"

text \<open>The calls of \<open>onChunk\<close> (the delta and the content so far), \<open>onComplete\<close> (the
  content, the raw response and the flag \<open>timedOut\<close>) and \<open>onError\<close>.\<close>

datatype callback =
    OnChunk string string
  | OnComplete string string bool
  | OnErrorCall string

record decoder =
  content :: string
  fullResponse :: string
  responseObj :: "sse_json option"
  streamComplete :: bool
  streamTimeout :: "int option"
  emptyChunksCount :: nat
  loopExited :: bool
  calls :: "callback list"

definition INACTIVITY_MS :: int where
  "INACTIVITY_MS = 10000"

text \<open>\<open>chunk.split("\n")\<close>.\<close>

fun splitLines :: "string \<Rightarrow> string list" where
  "splitLines [] = [[]]"
| "splitLines (c # cs) =
     (if c = CHR 0x0A then [] # splitLines cs
      else (case splitLines cs of [] \<Rightarrow> [[c]] | l # ls \<Rightarrow> (c # l) # ls))"

text \<open>
  The loop over the lines of one chunk. A line that does not start with \<open>data: \<close> is
  skipped; the payload \<open>[DONE]\<close> sets \<open>isDone\<close> and leaves the loop; a payload that does
  not parse is skipped; a parsed event with a delta extends \<open>content\<close> and is passed to
  \<open>onChunk\<close>. The result is the new state and \<open>isDone\<close>.
\<close>

fun processLines :: "sse_parse \<Rightarrow> string list \<Rightarrow> decoder \<Rightarrow> decoder \<times> bool" where
  "processLines parse [] d = (d, False)"
| "processLines parse (line # rest) d =
     (if startsWith line ''data: '' then
        (let payload = drop 6 line
         in if payload = ''[DONE]'' then (d, True)
            else (case parse payload of
                    None \<Rightarrow> processLines parse rest d
                  | Some parsed \<Rightarrow>
                      if has_delta parsed then
                        (let c = content d @ delta_content parsed
                         in processLines parse rest
                              (d\<lparr>responseObj := Some parsed, content := c,
                                 calls := calls d @ [OnChunk (delta_content parsed) c]\<rparr>))
                      else processLines parse rest (d\<lparr>responseObj := Some parsed\<rparr>)))
      else processLines parse rest d)"

text \<open>The callback of the inactivity timer, and the timer firing when its time has come.\<close>

definition timerFires :: "decoder \<Rightarrow> decoder" where
  "timerFires d =
     (if streamComplete d then d\<lparr>streamTimeout := None\<rparr>
      else d\<lparr>streamTimeout := None, streamComplete := True,
             calls := calls d @ [OnComplete (content d) (fullResponse d) True]\<rparr>)"

definition fireIfDue :: "int \<Rightarrow> decoder \<Rightarrow> decoder" where
  "fireIfDue t d =
     (case streamTimeout d of
        None \<Rightarrow> d
      | Some due \<Rightarrow> if due \<le> t then timerFires d else d)"

text \<open>The code after the loop: \<open>onComplete\<close> unless the stream is already complete.\<close>

definition afterLoop :: "decoder \<Rightarrow> decoder" where
  "afterLoop d =
     (if streamComplete d then d\<lparr>loopExited := True\<rparr>
      else d\<lparr>loopExited := True, streamComplete := True, streamTimeout := None,
             calls := calls d @ [OnComplete (content d) (fullResponse d) False]\<rparr>)"

text \<open>The loop head \<open>while (!isDone && !streamComplete)\<close> with \<open>isDone\<close> false.\<close>

definition loopHead :: "decoder \<Rightarrow> decoder" where
  "loopHead d = (if streamComplete d then afterLoop d else d)"

text \<open>
  One \<open>reader.read()\<close> settles at time \<open>t\<close>. A timer that is due by then has fired first.
  When the loop has been left, nobody reads, and the event is lost.
\<close>

definition readSettles :: "sse_parse \<Rightarrow> stream_event \<Rightarrow> decoder \<Rightarrow> decoder" where
  "readSettles parse ev d =
     (let t = fst ev; d0 = fireIfDue t d
      in if loopExited d0 then d0
         else (case snd ev of
                 ReadDone \<Rightarrow> afterLoop d0
               | ReadError msg \<Rightarrow>
                   (if streamComplete d0 then d0\<lparr>loopExited := True, streamTimeout := None\<rparr>
                    else d0\<lparr>loopExited := True, streamTimeout := None, streamComplete := True,
                            calls := calls d0 @ [OnErrorCall (''Stream processing error: '' @ msg)]\<rparr>)
               | Chunk chunk \<Rightarrow>
                   (let d1 = d0\<lparr>streamTimeout := Some (t + INACTIVITY_MS)\<rparr>
                    in if trim chunk = [] then
                         (let d2 = d1\<lparr>emptyChunksCount := emptyChunksCount d1 + 1\<rparr>
                          in if 3 \<le> emptyChunksCount d2 then afterLoop d2 else loopHead d2)
                       else
                         (let d2 = d1\<lparr>emptyChunksCount := 0,
                                       fullResponse := fullResponse d1 @ chunk\<rparr>;
                              (d3, isDone) = processLines parse (splitLines chunk) d2
                          in if isDone then afterLoop d3 else loopHead d3))))"

definition startDecoder :: "int \<Rightarrow> decoder" where
  "startDecoder t0 =
     \<lparr>content = [], fullResponse = [], responseObj = None, streamComplete = False,
      streamTimeout = Some (t0 + INACTIVITY_MS), emptyChunksCount = 0, loopExited = False,
      calls = []\<rparr>"

fun runDecoder :: "sse_parse \<Rightarrow> stream_event list \<Rightarrow> decoder \<Rightarrow> decoder" where
  "runDecoder parse [] d = d"
| "runDecoder parse (ev # evs) d = runDecoder parse evs (readSettles parse ev d)"

text \<open>\<open>getCompletionStreaming\<close> from the start of the response at \<open>t0\<close>, over the events
  of the reader, watched until \<open>tEnd\<close>: the calls it has made by then.\<close>

definition getCompletionStreaming :: "sse_parse \<Rightarrow> int \<Rightarrow> stream_event list \<Rightarrow> int \<Rightarrow> callback list" where
  "getCompletionStreaming parse t0 evs tEnd =
     calls (fireIfDue tEnd (runDecoder parse evs (startDecoder t0)))"

text \<open>The deltas passed to \<open>onChunk\<close>, in order.\<close>

fun deltas :: "callback list \<Rightarrow> string list" where
  "deltas [] = []"
| "deltas (OnChunk delta _ # cs) = delta # deltas cs"
| "deltas (_ # cs) = deltas cs"

text \<open>
  The consumer \<open>rateTweetStreaming\<close>: \<open>onChunk\<close> appends the delta to
  \<open>aggregatedContent\<close>; \<open>onComplete\<close> resolves the promise with the aggregate and
  \<open>onError\<close> rejects it. A promise settles once.
\<close>

datatype settled = Resolved string | Rejected string

fun consume :: "callback list \<Rightarrow> string \<Rightarrow> settled option" where
  "consume [] agg = None"
| "consume (OnChunk delta _ # cs) agg = consume cs (agg @ delta)"
| "consume (OnComplete _ _ _ # cs) agg = Some (Resolved agg)"
| "consume (OnErrorCall msg # cs) agg = Some (Rejected msg)"

definition rateTweetStreaming :: "sse_parse \<Rightarrow> int \<Rightarrow> stream_event list \<Rightarrow> int \<Rightarrow> settled option" where
  "rateTweetStreaming parse t0 evs tEnd = consume (getCompletionStreaming parse t0 evs tEnd) []"

text \<open>A parser for the examples: the payloads \<open>A\<close>, \<open>B\<close> and \<open>C\<close> carry the deltas
  \<open>Good \<close>, \<open>tweet. \<close> and \<open>SCORE_9\<close>; nothing else parses.\<close>

definition sampleParse :: sse_parse where
  "sampleParse payload =
     (if payload = ''A'' then Some \<lparr>has_delta = True, delta_content = ''Good ''\<rparr>
      else if payload = ''B'' then Some \<lparr>has_delta = True, delta_content = ''tweet. ''\<rparr>
      else if payload = ''C'' then Some \<lparr>has_delta = True, delta_content = ''SCORE_9''\<rparr>
      else None)"

definition newline :: string where
  "newline = [CHR 0x0A]"

subsection \<open>Invariants of the decoder\<close>

fun isChunkCall :: "callback \<Rightarrow> bool" where
  "isChunkCall (OnChunk _ _) = True"
| "isChunkCall _ = False"

definition onlyChunks :: "callback list \<Rightarrow> bool" where
  "onlyChunks cs \<longleftrightarrow> list_all isChunkCall cs"

lemma onlyChunks_simps [simp]:
  "onlyChunks []"
  "onlyChunks (c # cs) \<longleftrightarrow> isChunkCall c \<and> onlyChunks cs"
  "onlyChunks (xs @ ys) \<longleftrightarrow> onlyChunks xs \<and> onlyChunks ys"
  by (simp_all add: onlyChunks_def)

lemma deltas_append [simp]: "deltas (xs @ ys) = deltas xs @ deltas ys"
  by (induction xs rule: deltas.induct) simp_all

lemma consume_only_chunks:
  "onlyChunks cs \<Longrightarrow> consume (cs @ rest) agg = consume rest (agg @ concat (deltas cs))"
proof (induction cs arbitrary: agg)
  case Nil
  then show ?case by simp
next
  case (Cons c cs)
  then show ?case by (cases c) simp_all
qed

lemma consume_settled_append:
  "consume cs agg = Some s \<Longrightarrow> consume (cs @ rest) agg = Some s"
proof (induction cs arbitrary: agg)
  case Nil
  then show ?case by simp
next
  case (Cons c cs)
  then show ?case by (cases c) simp_all
qed

lemma onlyChunks_no_completion:
  "onlyChunks cs \<Longrightarrow> OnComplete c f b \<notin> set cs"
  by (induction cs) auto

text \<open>The lines of a chunk add calls of \<open>onChunk\<close> only, extend \<open>content\<close> by their
  deltas and leave the flags and the timer alone.\<close>

lemma processLines_effect:
  "\<exists>cs. calls (fst (processLines parse ls d)) = calls d @ cs \<and> onlyChunks cs \<and>
        content (fst (processLines parse ls d)) = content d @ concat (deltas cs) \<and>
        streamComplete (fst (processLines parse ls d)) = streamComplete d \<and>
        loopExited (fst (processLines parse ls d)) = loopExited d \<and>
        streamTimeout (fst (processLines parse ls d)) = streamTimeout d \<and>
        fullResponse (fst (processLines parse ls d)) = fullResponse d"
proof (induction ls arbitrary: d)
  case Nil
  show ?case by simp
next
  case (Cons line rest)
  show ?case
  proof (cases "startsWith line ''data: '' \<and> drop 6 line \<noteq> ''[DONE]''")
    case False
    then show ?thesis
      using Cons.IH [of d] by (auto simp: Let_def)
  next
    case True
    show ?thesis
    proof (cases "parse (drop 6 line)")
      case None
      then show ?thesis
        using True Cons.IH [of d] by (simp add: Let_def)
    next
      case (Some parsed)
      show ?thesis
      proof (cases "has_delta parsed")
        case False
        then show ?thesis
          using True Some Cons.IH [of "d\<lparr>responseObj := Some parsed\<rparr>"] by (simp add: Let_def)
      next
        case hd: True
        let ?c = "content d @ delta_content parsed"
        let ?d1 = "d\<lparr>responseObj := Some parsed, content := ?c,
                      calls := calls d @ [OnChunk (delta_content parsed) ?c]\<rparr>"
        obtain cs where cs:
          "calls (fst (processLines parse rest ?d1)) = calls ?d1 @ cs" "onlyChunks cs"
          "content (fst (processLines parse rest ?d1)) = content ?d1 @ concat (deltas cs)"
          "streamComplete (fst (processLines parse rest ?d1)) = streamComplete ?d1"
          "loopExited (fst (processLines parse rest ?d1)) = loopExited ?d1"
          "streamTimeout (fst (processLines parse rest ?d1)) = streamTimeout ?d1"
          "fullResponse (fst (processLines parse rest ?d1)) = fullResponse ?d1"
          using Cons.IH [of ?d1] by blast
        have step: "processLines parse (line # rest) d = processLines parse rest ?d1"
          using True Some hd by (simp add: Let_def)
        show ?thesis
          unfolding step
          by (rule exI [of _ "OnChunk (delta_content parsed) ?c # cs"]) (use cs in simp)
      qed
    qed
  qed
qed

definition decoderInv :: "decoder \<Rightarrow> bool" where
  "decoderInv d \<longleftrightarrow>
     content d = concat (deltas (calls d)) \<and>
     (\<not> streamComplete d \<longrightarrow> onlyChunks (calls d) \<and> \<not> loopExited d) \<and>
     (\<forall>c f. OnComplete c f False \<in> set (calls d) \<longrightarrow>
        loopExited d \<and> c = content d \<and> consume (calls d) [] = Some (Resolved c))"

lemma decoderInv_cong:
  assumes "content d' = content d" and "calls d' = calls d"
    and "streamComplete d' = streamComplete d" and "loopExited d' = loopExited d"
  shows "decoderInv d' = decoderInv d"
  using assms by (simp add: decoderInv_def)

lemma decoderInv_start: "decoderInv (startDecoder t0)"
  by (simp add: decoderInv_def startDecoder_def)

lemma decoderInv_timerFires: "decoderInv d \<Longrightarrow> decoderInv (timerFires d)"
  by (auto simp: decoderInv_def timerFires_def dest: onlyChunks_no_completion)

lemma decoderInv_fireIfDue: "decoderInv d \<Longrightarrow> decoderInv (fireIfDue t d)"
  by (simp add: fireIfDue_def decoderInv_timerFires split: option.splits)

lemma decoderInv_afterLoop:
  assumes "decoderInv d" and "\<not> loopExited d"
  shows "decoderInv (afterLoop d)"
proof (cases "streamComplete d")
  case True
  then show ?thesis
    using assms by (auto simp: decoderInv_def afterLoop_def)
next
  case False
  then have chunks: "onlyChunks (calls d)" and cont: "content d = concat (deltas (calls d))"
    using assms(1) by (simp_all add: decoderInv_def)
  have "consume (calls d @ [OnComplete (content d) (fullResponse d) False]) [] =
        Some (Resolved (content d))"
    using consume_only_chunks [OF chunks, of "[OnComplete (content d) (fullResponse d) False]" "[]"]
      cont by simp
  then show ?thesis
    using False chunks cont
    by (auto simp: decoderInv_def afterLoop_def dest: onlyChunks_no_completion)
qed

lemma decoderInv_loopHead:
  "decoderInv d \<Longrightarrow> \<not> loopExited d \<Longrightarrow> decoderInv (loopHead d)"
  by (simp add: loopHead_def decoderInv_afterLoop)

lemma decoderInv_processLines:
  assumes "decoderInv d" and "\<not> loopExited d"
  shows "decoderInv (fst (processLines parse ls d))"
proof -
  obtain cs where cs:
    "calls (fst (processLines parse ls d)) = calls d @ cs" "onlyChunks cs"
    "content (fst (processLines parse ls d)) = content d @ concat (deltas cs)"
    "streamComplete (fst (processLines parse ls d)) = streamComplete d"
    "loopExited (fst (processLines parse ls d)) = loopExited d"
    using processLines_effect [of parse ls d] by blast
  have none: "OnComplete c f False \<notin> set (calls d)" for c f
    using assms by (auto simp: decoderInv_def)
  have none': "OnComplete c f False \<notin> set cs" for c f
    using cs(2) by (rule onlyChunks_no_completion)
  show ?thesis
    using assms cs none none' by (simp add: decoderInv_def)
qed

lemma decoderInv_readSettles:
  assumes "decoderInv d"
  shows "decoderInv (readSettles parse ev d)"
proof -
  let ?t = "fst ev"
  let ?d0 = "fireIfDue ?t d"
  have inv0: "decoderInv ?d0"
    using assms by (rule decoderInv_fireIfDue)
  show ?thesis
  proof (cases "loopExited ?d0")
    case True
    then show ?thesis
      using inv0 by (simp add: readSettles_def Let_def)
  next
    case reading: False
    show ?thesis
    proof (cases "snd ev")
      case ReadDone
      then show ?thesis
        using reading inv0 by (simp add: readSettles_def Let_def decoderInv_afterLoop)
    next
      case (ReadError msg)
      have rs: "readSettles parse ev d =
          (if streamComplete ?d0 then ?d0\<lparr>loopExited := True, streamTimeout := None\<rparr>
           else ?d0\<lparr>loopExited := True, streamTimeout := None, streamComplete := True,
                    calls := calls ?d0 @ [OnErrorCall (''Stream processing error: '' @ msg)]\<rparr>)"
        using reading ReadError by (simp add: readSettles_def Let_def)
      show ?thesis
        unfolding rs using inv0 reading
        by (auto simp: decoderInv_def dest: onlyChunks_no_completion)
    next
      case (Chunk chunk)
      let ?d1 = "?d0\<lparr>streamTimeout := Some (?t + INACTIVITY_MS)\<rparr>"
      have inv1: "decoderInv ?d1" and open1: "\<not> loopExited ?d1"
        using inv0 reading decoderInv_cong [of ?d1 ?d0] by simp_all
      show ?thesis
      proof (cases "trim chunk = []")
        case True
        let ?d2 = "?d1\<lparr>emptyChunksCount := emptyChunksCount ?d1 + 1\<rparr>"
        have inv2: "decoderInv ?d2" and open2: "\<not> loopExited ?d2"
          using inv1 open1 decoderInv_cong [of ?d2 ?d1] by simp_all
        have rs: "readSettles parse ev d =
            (if 3 \<le> emptyChunksCount ?d2 then afterLoop ?d2 else loopHead ?d2)"
          using reading Chunk True by (simp add: readSettles_def Let_def)
        show ?thesis
          unfolding rs using inv2 open2 decoderInv_afterLoop decoderInv_loopHead
          by (cases "3 \<le> emptyChunksCount ?d2") presburger+
      next
        case False
        let ?d2 = "?d1\<lparr>emptyChunksCount := 0, fullResponse := fullResponse ?d1 @ chunk\<rparr>"
        have inv2: "decoderInv ?d2" and open2: "\<not> loopExited ?d2"
          using inv1 open1 decoderInv_cong [of ?d2 ?d1] by simp_all
        obtain d3 isDone where pl: "processLines parse (splitLines chunk) ?d2 = (d3, isDone)"
          by (cases "processLines parse (splitLines chunk) ?d2")
        have inv3: "decoderInv d3"
          using decoderInv_processLines [OF inv2 open2, of parse "splitLines chunk"] pl by simp
        have open3: "\<not> loopExited d3"
          using processLines_effect [of parse "splitLines chunk" ?d2] pl open2 by auto
        have rs: "readSettles parse ev d = (if isDone then afterLoop d3 else loopHead d3)"
          using reading Chunk False pl by (simp add: readSettles_def Let_def)
        show ?thesis
          unfolding rs using inv3 open3 by (simp add: decoderInv_afterLoop decoderInv_loopHead)
      qed
    qed
  qed
qed

lemma decoderInv_runDecoder:
  "decoderInv d \<Longrightarrow> decoderInv (runDecoder parse evs d)"
  by (induction evs arbitrary: d) (simp_all add: decoderInv_readSettles)

text \<open>
  Whenever \<open>onComplete\<close> is called without \<open>timedOut\<close>, its content is the
  concatenation of all the deltas the run passes to \<open>onChunk\<close>, before or after, and it
  is the content with which \<open>rateTweetStreaming\<close> resolves. This holds for every stream,
  well formed or not.
\<close>

lemma normal_completion_has_all_deltas:
  assumes "OnComplete c f False \<in> set (getCompletionStreaming parse t0 evs tEnd)"
  shows "c = concat (deltas (getCompletionStreaming parse t0 evs tEnd)) \<and>
         rateTweetStreaming parse t0 evs tEnd = Some (Resolved c)"
proof -
  have "decoderInv (fireIfDue tEnd (runDecoder parse evs (startDecoder t0)))"
    by (intro decoderInv_fireIfDue decoderInv_runDecoder decoderInv_start)
  then show ?thesis
    using assms by (auto simp: decoderInv_def getCompletionStreaming_def rateTweetStreaming_def)
qed

text \<open>The stream of scenario B with the sentinel: three frames, then \<open>[DONE]\<close>, 100 ms
  apart.\<close>

definition sampleStream :: "stream_event list" where
  "sampleStream =
     [(100, Chunk (''data: A'' @ newline @ newline)),
      (200, Chunk (''data: B'' @ newline @ ''data: C'' @ newline)),
      (300, Chunk (''data: [DONE]'' @ newline))]"

lemma sampleStream_calls:
  "getCompletionStreaming sampleParse 0 sampleStream 400 =
     [OnChunk ''Good '' ''Good '', OnChunk ''tweet. '' ''Good tweet. '',
      OnChunk ''SCORE_9'' ''Good tweet. SCORE_9'',
      OnComplete ''Good tweet. SCORE_9''
        (''data: A'' @ newline @ newline @ ''data: B'' @ newline @ ''data: C'' @ newline @
         ''data: [DONE]'' @ newline) False]"
  by code_simp

text \<open>
  A slow stream of well-formed frames that ends with the sentinel: the second chunk comes 11
  seconds after the first. The timer completes the stream at 11000 with the content
  \<open>Good \<close>; the chunk that arrives at 12000 is still decoded and its delta passed to
  \<open>onChunk\<close>, and no other completion follows.
\<close>

definition slowStream :: "stream_event list" where
  "slowStream =
     [(1000, Chunk (''data: A'' @ newline)),
      (12000, Chunk (''data: B'' @ newline @ ''data: [DONE]'' @ newline))]"

theorem slow_stream_aggregate_misses_late_delta:
  "getCompletionStreaming sampleParse 0 slowStream 13000 =
     [OnChunk ''Good '' ''Good '',
      OnComplete ''Good '' (''data: A'' @ newline) True,
      OnChunk ''tweet. '' ''Good tweet. ''] \<and>
   concat (deltas (getCompletionStreaming sampleParse 0 slowStream 13000)) = ''Good tweet. '' \<and>
   rateTweetStreaming sampleParse 0 slowStream 13000 = Some (Resolved ''Good '')"
  by code_simp

subsection \<open>The inactivity timer\<close>

text \<open>The time of the last chunk of any kind that the reader delivered, or the start of the
  response when there was none.\<close>

definition lastActivity :: "int \<Rightarrow> stream_event list \<Rightarrow> int" where
  "lastActivity t0 evs = (if evs = [] then t0 else fst (last evs))"

lemma runDecoder_append:
  "runDecoder parse (xs @ ys) d = runDecoder parse ys (runDecoder parse xs d)"
  by (induction xs arbitrary: d) simp_all

lemma afterLoop_complete: "streamComplete (afterLoop d)"
  by (simp add: afterLoop_def)





text \<open>Once the stream is complete, the decoder calls neither \<open>onComplete\<close> nor
  \<open>onError\<close> again; a chunk that a pending read still delivers is decoded and passed to
  \<open>onChunk\<close>.\<close>

lemma timerFires_complete:
  "streamComplete d \<Longrightarrow> calls (timerFires d) = calls d \<and> streamComplete (timerFires d)"
  by (simp add: timerFires_def)

lemma fireIfDue_complete:
  "streamComplete d \<Longrightarrow> calls (fireIfDue t d) = calls d \<and> streamComplete (fireIfDue t d)"
  by (simp add: fireIfDue_def timerFires_complete split: option.splits)

lemma afterLoop_keeps_calls:
  "streamComplete d \<Longrightarrow> calls (afterLoop d) = calls d"
  by (simp add: afterLoop_def)

lemma loopHead_keeps_calls:
  "streamComplete d \<Longrightarrow> calls (loopHead d) = calls d \<and> streamComplete (loopHead d)"
  by (simp add: loopHead_def afterLoop_def)

lemma readSettles_complete:
  assumes "streamComplete d"
  shows "\<exists>cs. calls (readSettles parse ev d) = calls d @ cs \<and> onlyChunks cs \<and>
              streamComplete (readSettles parse ev d)"
proof -
  let ?t = "fst ev"
  let ?d0 = "fireIfDue ?t d"
  have c0: "calls ?d0 = calls d" and s0: "streamComplete ?d0"
    using fireIfDue_complete [OF assms] by simp_all
  show ?thesis
  proof (cases "loopExited ?d0")
    case True
    then have "readSettles parse ev d = ?d0"
      by (simp add: readSettles_def Let_def)
    then show ?thesis
      using c0 s0 by simp
  next
    case reading: False
    show ?thesis
    proof (cases "snd ev")
      case ReadDone
      then have "readSettles parse ev d = afterLoop ?d0"
        using reading by (simp add: readSettles_def Let_def)
      then show ?thesis
        using c0 s0 by (simp add: afterLoop_keeps_calls afterLoop_complete)
    next
      case (ReadError msg)
      then have "readSettles parse ev d = ?d0\<lparr>loopExited := True, streamTimeout := None\<rparr>"
        using reading s0 by (simp add: readSettles_def Let_def)
      then show ?thesis
        using c0 s0 by simp
    next
      case (Chunk chunk)
      let ?d1 = "?d0\<lparr>streamTimeout := Some (?t + INACTIVITY_MS)\<rparr>"
      show ?thesis
      proof (cases "trim chunk = []")
        case True
        let ?d2 = "?d1\<lparr>emptyChunksCount := emptyChunksCount ?d1 + 1\<rparr>"
        have rs: "readSettles parse ev d =
            (if 3 \<le> emptyChunksCount ?d2 then afterLoop ?d2 else loopHead ?d2)"
          using reading Chunk True by (simp add: readSettles_def Let_def)
        have s2: "streamComplete ?d2" and c2: "calls ?d2 = calls d"
          using s0 c0 by simp_all
        have "calls (readSettles parse ev d) = calls d \<and> streamComplete (readSettles parse ev d)"
          unfolding rs using s2 c2 afterLoop_keeps_calls [OF s2] loopHead_keeps_calls [OF s2]
            afterLoop_complete [of ?d2]
          by (cases "3 \<le> emptyChunksCount ?d2") presburger+
        then show ?thesis by simp
      next
        case False
        let ?d2 = "?d1\<lparr>emptyChunksCount := 0, fullResponse := fullResponse ?d1 @ chunk\<rparr>"
        obtain d3 isDone where pl: "processLines parse (splitLines chunk) ?d2 = (d3, isDone)"
          by (cases "processLines parse (splitLines chunk) ?d2")
        have rs: "readSettles parse ev d = (if isDone then afterLoop d3 else loopHead d3)"
          using reading Chunk False pl by (simp add: readSettles_def Let_def)
        obtain cs where cs: "calls d3 = calls ?d2 @ cs" "onlyChunks cs"
          "streamComplete d3 = streamComplete ?d2"
          using processLines_effect [of parse "splitLines chunk" ?d2] pl by auto
        have s3: "streamComplete d3"
          using cs(3) s0 by simp
        have "calls (readSettles parse ev d) = calls d3 \<and> streamComplete (readSettles parse ev d)"
          unfolding rs using afterLoop_keeps_calls [OF s3] loopHead_keeps_calls [OF s3]
            afterLoop_complete [of d3]
          by (cases isDone) simp_all
        then show ?thesis
          using cs c0 by simp
      qed
    qed
  qed
qed



lemma fireIfDue_timerFires [simp]: "fireIfDue t (timerFires d) = timerFires d"
  by (simp add: fireIfDue_def timerFires_def)








subsection \<open>A stream that ends with the sentinel completes\<close>

text \<open>A stream is timely when every chunk arrives less than \<open>INACTIVITY_MS\<close> after the
  one before it (the first after the start of the response), and every event is a chunk.\<close>

fun timely :: "int \<Rightarrow> stream_event list \<Rightarrow> bool" where
  "timely prev [] = True"
| "timely prev ((t, Chunk _) # evs) = (t < prev + INACTIVITY_MS \<and> timely t evs)"
| "timely prev (_ # evs) = False"

lemma processLines_done:
  "''data: [DONE]'' \<in> set ls \<Longrightarrow> snd (processLines parse ls d)"
proof (induction ls arbitrary: d)
  case Nil
  then show ?case by simp
next
  case (Cons line rest)
  show ?case
  proof (cases "line = ''data: [DONE]''")
    case True
    then show ?thesis
      by (simp add: startsWith_def)
  next
    case False
    then have "''data: [DONE]'' \<in> set rest"
      using Cons.prems by auto
    then have "snd (processLines parse rest d')" for d'
      by (rule Cons.IH)
    then show ?thesis
      by (simp add: Let_def split: option.splits)
  qed
qed

definition completedNormally :: "decoder \<Rightarrow> bool" where
  "completedNormally d \<longleftrightarrow> (\<exists>c f. OnComplete c f False \<in> set (calls d))"

definition awaiting :: "int \<Rightarrow> decoder \<Rightarrow> bool" where
  "awaiting prev d \<longleftrightarrow>
     \<not> streamComplete d \<and> \<not> loopExited d \<and> streamTimeout d = Some (prev + INACTIVITY_MS)"

lemma afterLoop_normal:
  "\<not> streamComplete d \<Longrightarrow> completedNormally (afterLoop d)"
  by (auto simp: completedNormally_def afterLoop_def)

lemma completedNormally_readSettles:
  assumes "decoderInv d" and "completedNormally d"
  shows "completedNormally (readSettles parse ev d)"
proof -
  obtain c f where c: "OnComplete c f False \<in> set (calls d)"
    using assms(2) by (auto simp: completedNormally_def)
  then have "streamComplete d"
    using assms(1) by (auto simp: decoderInv_def dest: onlyChunks_no_completion)
  then obtain cs where "calls (readSettles parse ev d) = calls d @ cs"
    using readSettles_complete by blast
  then show ?thesis
    using c by (auto simp: completedNormally_def)
qed

text \<open>A chunk that arrives in time either completes the stream without \<open>timedOut\<close> or
  leaves the decoder waiting, with the timer restarted.\<close>

lemma readSettles_awaiting:
  assumes "awaiting prev d" and "t < prev + INACTIVITY_MS"
  shows "completedNormally (readSettles parse (t, Chunk chunk) d) \<or>
         awaiting t (readSettles parse (t, Chunk chunk) d)"
    and "trim chunk \<noteq> [] \<Longrightarrow> ''data: [DONE]'' \<in> set (splitLines chunk) \<Longrightarrow>
         completedNormally (readSettles parse (t, Chunk chunk) d)"
proof -
  have d0: "fireIfDue t d = d"
    using assms by (simp add: awaiting_def fireIfDue_def)
  have nc: "\<not> streamComplete d" and nl: "\<not> loopExited d"
    using assms(1) by (simp_all add: awaiting_def)
  let ?d1 = "d\<lparr>streamTimeout := Some (t + INACTIVITY_MS)\<rparr>"
  show "completedNormally (readSettles parse (t, Chunk chunk) d) \<or>
        awaiting t (readSettles parse (t, Chunk chunk) d)"
  proof (cases "trim chunk = []")
    case True
    let ?d2 = "?d1\<lparr>emptyChunksCount := emptyChunksCount ?d1 + 1\<rparr>"
    have rs: "readSettles parse (t, Chunk chunk) d =
        (if 3 \<le> emptyChunksCount ?d2 then afterLoop ?d2 else loopHead ?d2)"
      using nl True d0 by (simp add: readSettles_def Let_def)
    have nc2: "\<not> streamComplete ?d2"
      using nc by simp
    show ?thesis
    proof (cases "3 \<le> emptyChunksCount ?d2")
      case True
      then have "readSettles parse (t, Chunk chunk) d = afterLoop ?d2"
        using rs by presburger
      then show ?thesis
        using afterLoop_normal [OF nc2] by simp
    next
      case False
      then have "readSettles parse (t, Chunk chunk) d = loopHead ?d2"
        using rs by presburger
      then have "readSettles parse (t, Chunk chunk) d = ?d2"
        using nc2 by (simp add: loopHead_def)
      then show ?thesis
        using nc nl by (simp add: awaiting_def)
    qed
  next
    case False
    let ?d2 = "?d1\<lparr>emptyChunksCount := 0, fullResponse := fullResponse ?d1 @ chunk\<rparr>"
    obtain d3 isDone where pl: "processLines parse (splitLines chunk) ?d2 = (d3, isDone)"
      by (cases "processLines parse (splitLines chunk) ?d2")
    have rs: "readSettles parse (t, Chunk chunk) d = (if isDone then afterLoop d3 else loopHead d3)"
      using nl False pl d0 by (simp add: readSettles_def Let_def)
    have d3: "\<not> streamComplete d3" "\<not> loopExited d3" "streamTimeout d3 = Some (t + INACTIVITY_MS)"
      using processLines_effect [of parse "splitLines chunk" ?d2] pl nc nl by auto
    show ?thesis
    proof (cases isDone)
      case True
      then show ?thesis
        using rs afterLoop_normal [OF d3(1)] by simp
    next
      case False
      then have "readSettles parse (t, Chunk chunk) d = d3"
        using rs d3(1) by (simp add: loopHead_def)
      then show ?thesis
        using d3 by (simp add: awaiting_def)
    qed
  qed
  show "completedNormally (readSettles parse (t, Chunk chunk) d)"
    if ne: "trim chunk \<noteq> []" and dn: "''data: [DONE]'' \<in> set (splitLines chunk)"
  proof -
    let ?d2 = "?d1\<lparr>emptyChunksCount := 0, fullResponse := fullResponse ?d1 @ chunk\<rparr>"
    obtain d3 isDone where pl: "processLines parse (splitLines chunk) ?d2 = (d3, isDone)"
      by (cases "processLines parse (splitLines chunk) ?d2")
    have "isDone"
      using processLines_done [OF dn, of parse ?d2] pl by simp
    then have rs: "readSettles parse (t, Chunk chunk) d = afterLoop d3"
      using nl ne pl d0 by (simp add: readSettles_def Let_def)
    have "\<not> streamComplete d3"
      using processLines_effect [of parse "splitLines chunk" ?d2] pl nc by auto
    then show ?thesis
      using rs afterLoop_normal by simp
  qed
qed

lemma timely_run:
  assumes "decoderInv d" and "completedNormally d \<or> awaiting prev d" and "timely prev evs"
  shows "completedNormally (runDecoder parse evs d) \<or>
         awaiting (lastActivity prev evs) (runDecoder parse evs d)"
  using assms
proof (induction evs arbitrary: d prev)
  case Nil
  then show ?case by (simp add: lastActivity_def)
next
  case (Cons ev evs)
  obtain t r where ev: "ev = (t, r)" by (cases ev)
  obtain chunk where r: "r = Chunk chunk" and intime: "t < prev + INACTIVITY_MS"
    and rest: "timely t evs"
    using Cons.prems(3) ev by (cases r) simp_all
  have inv: "decoderInv (readSettles parse ev d)"
    using Cons.prems(1) by (rule decoderInv_readSettles)
  have next_state: "completedNormally (readSettles parse ev d) \<or> awaiting t (readSettles parse ev d)"
    using Cons.prems(1,2) completedNormally_readSettles readSettles_awaiting(1) [OF _ intime]
    unfolding ev r by blast
  have la: "lastActivity prev (ev # evs) = lastActivity t evs"
    by (simp add: lastActivity_def ev)
  show ?case
    using Cons.IH [OF inv next_state rest] la by simp
qed

text \<open>A timely stream of chunks whose last chunk carries the line \<open>data: [DONE]\<close> is
  completed by the sentinel (or by an earlier chunk), not by the timer.\<close>

lemma timely_stream_completes_normally:
  assumes "timely t0 (evs @ [(t, Chunk chunk)])"
    and "trim chunk \<noteq> []" and "''data: [DONE]'' \<in> set (splitLines chunk)"
  shows "\<exists>c f. OnComplete c f False \<in> set (getCompletionStreaming parse t0 (evs @ [(t, Chunk chunk)]) tEnd)"
proof -
  let ?d = "runDecoder parse evs (startDecoder t0)"
  have split: "timely t0 evs \<and> t < lastActivity t0 evs + INACTIVITY_MS"
    using assms(1)
  proof (induction evs arbitrary: t0)
    case Nil
    then show ?case by (simp add: lastActivity_def)
  next
    case (Cons ev evs)
    obtain t' r where ev: "ev = (t', r)" by (cases ev)
    obtain c where r: "r = Chunk c" and a: "t' < t0 + INACTIVITY_MS"
      and b: "timely t' (evs @ [(t, Chunk chunk)])"
      using Cons.prems ev by (cases r) simp_all
    have "lastActivity t0 (ev # evs) = lastActivity t' evs"
      by (simp add: lastActivity_def ev)
    then show ?case
      using Cons.IH [OF b] a ev r by simp
  qed
  have inv: "decoderInv ?d"
    by (intro decoderInv_runDecoder decoderInv_start)
  have start: "completedNormally (startDecoder t0) \<or> awaiting t0 (startDecoder t0)"
    by (simp add: awaiting_def startDecoder_def)
  have before: "completedNormally ?d \<or> awaiting (lastActivity t0 evs) ?d"
    using timely_run [OF decoderInv_start start] split by blast
  have "completedNormally (readSettles parse (t, Chunk chunk) ?d)"
    using before
  proof
    assume "completedNormally ?d"
    then show ?thesis
      using inv by (intro completedNormally_readSettles)
  next
    assume aw: "awaiting (lastActivity t0 evs) ?d"
    have intime: "t < lastActivity t0 evs + INACTIVITY_MS"
      using split by simp
    show ?thesis
      using aw intime assms(2) assms(3) by (rule readSettles_awaiting(2))
  qed
  then obtain c f where c: "OnComplete c f False \<in> set (calls (readSettles parse (t, Chunk chunk) ?d))"
    by (auto simp: completedNormally_def)
  have inv2: "decoderInv (readSettles parse (t, Chunk chunk) ?d)"
    using inv by (rule decoderInv_readSettles)
  then have "streamComplete (readSettles parse (t, Chunk chunk) ?d)"
    using c by (auto simp: decoderInv_def dest: onlyChunks_no_completion)
  then have "calls (fireIfDue tEnd (readSettles parse (t, Chunk chunk) ?d)) =
             calls (readSettles parse (t, Chunk chunk) ?d)"
    using fireIfDue_complete by blast
  then show ?thesis
    using c by (auto simp: getCompletionStreaming_def runDecoder_append)
qed

text \<open>
  Claim C7: for a streamed response of well-formed frames followed by the sentinel
  \<open>[DONE]\<close>, the content passed to the completion callback is the concatenation, in order
  of arrival, of the deltas passed to the chunk consumer. As the decoder is written this
  holds when the chunks arrive less than 10 s apart, so that the inactivity timer does not
  complete the stream first: for a timely stream of chunks whose last chunk carries the line
  \<open>data: [DONE]\<close>, \<open>onComplete\<close> is called without \<open>timedOut\<close>, with the
  concatenation of all the deltas passed to \<open>onChunk\<close>, and \<open>rateTweetStreaming\<close>
  resolves with it.
\<close>

theorem streaming_aggregate_is_concat_of_deltas:
  assumes "timely t0 (evs @ [(t, Chunk chunk)])"
    and "trim chunk \<noteq> []" and "''data: [DONE]'' \<in> set (splitLines chunk)"
  shows "\<exists>c f.
           OnComplete c f False \<in> set (getCompletionStreaming parse t0 (evs @ [(t, Chunk chunk)]) tEnd) \<and>
           c = concat (deltas (getCompletionStreaming parse t0 (evs @ [(t, Chunk chunk)]) tEnd)) \<and>
           rateTweetStreaming parse t0 (evs @ [(t, Chunk chunk)]) tEnd = Some (Resolved c)"
proof -
  obtain c f where
    "OnComplete c f False \<in> set (getCompletionStreaming parse t0 (evs @ [(t, Chunk chunk)]) tEnd)"
    using timely_stream_completes_normally [OF assms] by blast
  then show ?thesis
    using normal_completion_has_all_deltas by blast
qed

theorem streaming_aggregate_is_concat_of_deltas_witness:
  "(\<exists>c f.
      OnComplete c f False \<in> set (getCompletionStreaming sampleParse 0 sampleStream 400) \<and>
      c = concat (deltas (getCompletionStreaming sampleParse 0 sampleStream 400)) \<and>
      rateTweetStreaming sampleParse 0 sampleStream 400 = Some (Resolved c)) \<and>
   concat (deltas (getCompletionStreaming sampleParse 0 sampleStream 400)) = ''Good tweet. SCORE_9''"
proof -
  have shape: "sampleStream =
      [(100, Chunk (''data: A'' @ newline @ newline)),
       (200, Chunk (''data: B'' @ newline @ ''data: C'' @ newline))] @
      [(300, Chunk (''data: [DONE]'' @ newline))]"
    by (simp add: sampleStream_def)
  have hyps: "timely 0 sampleStream" "trim (''data: [DONE]'' @ newline) \<noteq> []"
    "''data: [DONE]'' \<in> set (splitLines (''data: [DONE]'' @ newline))"
    by code_simp+
  have "concat (deltas (getCompletionStreaming sampleParse 0 sampleStream 400)) = ''Good tweet. SCORE_9''"
    by (simp add: sampleStream_calls)
  then show ?thesis
    using streaming_aggregate_is_concat_of_deltas
      [of 0 "[(100, Chunk (''data: A'' @ newline @ newline)),
              (200, Chunk (''data: B'' @ newline @ ''data: C'' @ newline))]"
          300 "''data: [DONE]'' @ newline" sampleParse 400]
      hyps
    unfolding shape [symmetric] by blast
qed

section \<open>The retry loop of the streaming version of \<open>api.js\<close>\<close>

text \<open>
  In the version of \<open>api.js\<close> that has the streaming transport, an attempt of
  \<open>rateTweetWithOpenRouter\<close> awaits \<open>rateTweet\<close> or \<open>rateTweetStreaming\<close> inside
  \<open>try\<close>: it returns a result with the fields \<open>error\<close> and \<open>content\<close>, or throws
  (the promise of \<open>rateTweetStreaming\<close> is rejected).
\<close>

datatype attempt_outcome = Returned bool string | Threw string

text \<open>\<open>rateTweet\<close>: the content of the first choice, or the message of the result
  (\<open>result.message || "Error getting response"\<close>) with \<open>error = true\<close>.\<close>

definition rateTweet :: "json_parse \<Rightarrow> xhr_outcome \<Rightarrow> attempt_outcome" where
  "rateTweet parse outcome =
     (let result = getCompletion parse 30000 outcome;
          failed = Returned True
                     (if message result = [] then ''Error getting response'' else message result)
      in if error result then failed
         else (case firstMessageContent result of
                 None \<Rightarrow> failed
               | Some c \<Rightarrow> if c = [] then failed else Returned False c))"

text \<open>The attempt through \<open>rateTweetStreaming\<close>, once its promise has settled.\<close>

fun streamingOutcome :: "settled \<Rightarrow> attempt_outcome" where
  "streamingOutcome (Resolved c) = Returned False c"
| "streamingOutcome (Rejected msg) = Threw msg"

text \<open>\<open>!result.error && result.content\<close>, then \<open>result.content.match(/SCORE_(\d+)/)\<close>.\<close>

fun apiAttemptScore :: "attempt_outcome \<Rightarrow> (nat \<times> string) option" where
  "apiAttemptScore (Returned err c) =
     (if err \<or> c = [] then None
      else (case extractScore c of None \<Rightarrow> None | Some sc \<Rightarrow> Some (sc, c)))"
| "apiAttemptScore (Threw _) = None"

text \<open>The environment gives, for the \<open>n\<close>-th attempt of the session, its outcome and the
  time it takes.\<close>

type_synonym attempts = "nat \<Rightarrow> attempt_outcome \<times> int"

definition afterApiAttempt :: "attempts \<Rightarrow> world \<Rightarrow> world" where
  "afterApiAttempt env w =
     (let w0 = acquire w
      in w0\<lparr>log := log w0 @ [Dispatch (dispatched w0)],
            dispatched := dispatched w0 + 1,
            clock := clock w0 + snd (env (dispatched w0)),
            pendingRequests := pendingRequests w0 + 1 - 1\<rparr>)"

text \<open>The loop: the branch after a result without a score and the \<open>catch\<close> branch both
  sleep \<open>Math.pow(attempt, 2) * 1000\<close> ms when attempts remain.\<close>

function retryLoopApi :: "attempts \<Rightarrow> nat \<Rightarrow> nat \<Rightarrow> world \<Rightarrow> rating \<times> world" where
  "retryLoopApi env maxRetries attempt w =
     (if attempt < maxRetries then
        (let attempt' = attempt + 1;
             outcome = fst (env (dispatched w));
             w1 = afterApiAttempt env w
         in case outcome of
              Returned err c \<Rightarrow>
                (case apiAttemptScore (Returned err c) of
                   Some (sc, ctext) \<Rightarrow>
                     (\<lparr>rating_score = sc, rating_content = ctext, rating_error = False\<rparr>, w1)
                 | None \<Rightarrow>
                     if attempt' < maxRetries then
                       retryLoopApi env maxRetries attempt' (afterBackoff attempt' w1)
                     else retryLoopApi env maxRetries attempt' w1)
            | Threw msg \<Rightarrow>
                if attempt' < maxRetries then
                  retryLoopApi env maxRetries attempt' (afterBackoff attempt' w1)
                else retryLoopApi env maxRetries attempt' w1)
      else (failedRating, w))"
  by pat_completeness auto
termination
  by (relation "measure (\<lambda>(env, maxRetries, attempt, w). maxRetries - attempt)") auto

declare retryLoopApi.simps [simp del]

lemma afterApiAttempt_dispatched [simp]:
  "dispatched (afterApiAttempt env w) = dispatched w + 1"
  by (simp add: afterApiAttempt_def Let_def)

lemma afterApiAttempt_steps [simp]:
  "attemptSteps (log (afterApiAttempt env w)) = attemptSteps (log w) @ [Dispatch (dispatched w)]"
  using acquire_steps [of w] by (simp add: afterApiAttempt_def Let_def attemptSteps_def)

lemma afterApiAttempt_log:
  "\<exists>ws. log (afterApiAttempt env w) = log w @ ws"
  using acquire_log [of w] by (auto simp: afterApiAttempt_def Let_def)

lemma retryLoopApi_exhausted:
  "\<not> attempt < maxRetries \<Longrightarrow> retryLoopApi env maxRetries attempt w = (failedRating, w)"
  by (simp add: retryLoopApi.simps)

lemma retryLoopApi_fail_retry:
  assumes "attempt + 1 < maxRetries"
    and "apiAttemptScore (fst (env (dispatched w))) = None"
  shows "retryLoopApi env maxRetries attempt w =
         retryLoopApi env maxRetries (attempt + 1)
           (afterBackoff (attempt + 1) (afterApiAttempt env w))"
proof -
  have lt: "attempt < maxRetries"
    using assms(1) by simp
  show ?thesis
  proof (cases "fst (env (dispatched w))")
    case (Returned err c)
    then show ?thesis
      using assms lt by (subst retryLoopApi.simps) (simp add: Let_def del: apiAttemptScore.simps)
  next
    case (Threw msg)
    then show ?thesis
      using assms lt by (subst retryLoopApi.simps) (simp add: Let_def)
  qed
qed

lemma retryLoopApi_fail_last:
  assumes "attempt < maxRetries" and "\<not> attempt + 1 < maxRetries"
    and "apiAttemptScore (fst (env (dispatched w))) = None"
  shows "retryLoopApi env maxRetries attempt w = (failedRating, afterApiAttempt env w)"
proof (cases "fst (env (dispatched w))")
  case (Returned err c)
  then show ?thesis
    using assms
    by (subst retryLoopApi.simps)
      (simp add: Let_def retryLoopApi_exhausted del: apiAttemptScore.simps)
next
  case (Threw msg)
  then show ?thesis
    using assms by (subst retryLoopApi.simps) (simp add: Let_def retryLoopApi_exhausted)
qed

lemma retryLoopApi_success:
  assumes "attempt < maxRetries"
    and "apiAttemptScore (fst (env (dispatched w))) = Some (sc, ctext)"
  shows "retryLoopApi env maxRetries attempt w =
         (\<lparr>rating_score = sc, rating_content = ctext, rating_error = False\<rparr>,
          afterApiAttempt env w)"
proof (cases "fst (env (dispatched w))")
  case (Returned err c)
  then show ?thesis
    using assms by (subst retryLoopApi.simps) (simp add: Let_def del: apiAttemptScore.simps)
next
  case (Threw msg)
  then show ?thesis
    using assms by simp
qed

lemma retryLoopApi_log_extends:
  "\<exists>rest. log (snd (retryLoopApi env maxRetries attempt w)) = log w @ rest"
proof (induction "maxRetries - attempt" arbitrary: attempt w)
  case 0
  then show ?case by (simp add: retryLoopApi_exhausted)
next
  case (Suc m)
  then have lt: "attempt < maxRetries" by simp
  obtain ws where ws: "log (afterApiAttempt env w) = log w @ ws"
    using afterApiAttempt_log by blast
  show ?case
  proof (cases "apiAttemptScore (fst (env (dispatched w)))")
    case (Some p)
    obtain sc ctext where p: "p = (sc, ctext)" by (cases p)
    have "apiAttemptScore (fst (env (dispatched w))) = Some (sc, ctext)"
      using Some p by simp
    then show ?thesis
      using lt ws by (simp add: retryLoopApi_success)
  next
    case None
    show ?thesis
    proof (cases "attempt + 1 < maxRetries")
      case True
      have "m = maxRetries - (attempt + 1)" using Suc.hyps(2) by simp
      from Suc.hyps(1) [OF this]
      obtain rest where
        "log (snd (retryLoopApi env maxRetries (attempt + 1)
            (afterBackoff (attempt + 1) (afterApiAttempt env w)))) =
         log (afterBackoff (attempt + 1) (afterApiAttempt env w)) @ rest"
        by blast
      then show ?thesis
        using True None ws by (simp add: retryLoopApi_fail_retry afterBackoff_def)
    next
      case False
      then show ?thesis
        using lt None ws by (simp add: retryLoopApi_fail_last)
    qed
  qed
qed

lemma retryLoopApi_first_dispatch:
  assumes "attempt < maxRetries"
  shows "\<exists>rest. attemptSteps (log (snd (retryLoopApi env maxRetries attempt w))) =
           attemptSteps (log w) @ Dispatch (dispatched w) # rest"
proof (cases "apiAttemptScore (fst (env (dispatched w)))")
  case (Some p)
  obtain sc ctext where p: "p = (sc, ctext)" by (cases p)
  have "apiAttemptScore (fst (env (dispatched w))) = Some (sc, ctext)"
    using Some p by simp
  then show ?thesis
    using assms by (simp add: retryLoopApi_success)
next
  case None
  show ?thesis
  proof (cases "attempt + 1 < maxRetries")
    case True
    let ?w2 = "afterBackoff (attempt + 1) (afterApiAttempt env w)"
    obtain ext where "log (snd (retryLoopApi env maxRetries (attempt + 1) ?w2)) = log ?w2 @ ext"
      using retryLoopApi_log_extends by blast
    then have "attemptSteps (log (snd (retryLoopApi env maxRetries (attempt + 1) ?w2))) =
               attemptSteps (log ?w2) @ attemptSteps ext"
      by (simp add: attemptSteps_def)
    then show ?thesis
      using True None by (simp add: retryLoopApi_fail_retry)
  next
    case False
    then show ?thesis
      using assms None by (simp add: retryLoopApi_fail_last)
  qed
qed

lemma retryLoopApi_failing_prefix:
  assumes "a \<le> n" and "n < maxRetries"
    and "\<forall>k. a < k \<and> k \<le> n \<longrightarrow> apiAttemptScore (fst (env (dispatched w + (k - a - 1)))) = None"
  shows "\<exists>rest. attemptSteps (log (snd (retryLoopApi env maxRetries a w))) =
           attemptSteps (log w) @
           concat (map (\<lambda>k. [Dispatch (dispatched w + (k - a - 1)), Backoff (int k ^ 2 * 1000)])
                     [a + 1 ..< n + 1]) @
           Dispatch (dispatched w + (n - a)) # rest"
  using assms
proof (induction "n - a" arbitrary: a w)
  case 0
  then have "a = n" by simp
  then show ?case
    using retryLoopApi_first_dispatch [of n maxRetries env w] "0.prems"(2) by simp
next
  case (Suc m)
  then have an: "a + 1 \<le> n" and lt: "a + 1 < maxRetries" by simp_all
  let ?w2 = "afterBackoff (a + 1) (afterApiAttempt env w)"
  have "a < a + 1 \<and> a + 1 \<le> n"
    using an by simp
  then have "apiAttemptScore (fst (env (dispatched w + (a + 1 - a - 1)))) = None"
    by (rule Suc.prems(3) [rule_format])
  then have fail: "apiAttemptScore (fst (env (dispatched w))) = None"
    by simp
  have step: "retryLoopApi env maxRetries a w = retryLoopApi env maxRetries (a + 1) ?w2"
    using lt fail by (rule retryLoopApi_fail_retry)
  have d2: "dispatched ?w2 = dispatched w + 1" by simp
  have later: "\<forall>k. a + 1 < k \<and> k \<le> n \<longrightarrow>
      apiAttemptScore (fst (env (dispatched ?w2 + (k - (a + 1) - 1)))) = None"
  proof (intro allI impI)
    fix k assume k: "a + 1 < k \<and> k \<le> n"
    then have eq: "dispatched ?w2 + (k - (a + 1) - 1) = dispatched w + (k - a - 1)"
      unfolding d2 by arith
    have "a < k \<and> k \<le> n"
      using k by simp
    then have f: "apiAttemptScore (fst (env (dispatched w + (k - a - 1)))) = None"
      by (rule Suc.prems(3) [rule_format])
    show "apiAttemptScore (fst (env (dispatched ?w2 + (k - (a + 1) - 1)))) = None"
      by (subst eq) (rule f)
  qed
  have m: "m = n - (a + 1)" using Suc.hyps(2) by simp
  obtain rest where rest:
    "attemptSteps (log (snd (retryLoopApi env maxRetries (a + 1) ?w2))) =
       attemptSteps (log ?w2) @
       concat (map (\<lambda>k. [Dispatch (dispatched ?w2 + (k - (a + 1) - 1)), Backoff (int k ^ 2 * 1000)])
                 [a + 1 + 1 ..< n + 1]) @
       Dispatch (dispatched ?w2 + (n - (a + 1))) # rest"
    using Suc.hyps(1) [OF m an Suc.prems(2) later] by blast
  have shift: "map (\<lambda>k. [Dispatch (dispatched ?w2 + (k - (a + 1) - 1)), Backoff (int k ^ 2 * 1000)])
                 [a + 1 + 1 ..< n + 1] =
               map (\<lambda>k. [Dispatch (dispatched w + (k - a - 1)), Backoff (int k ^ 2 * 1000)])
                 [a + 1 + 1 ..< n + 1]"
  proof (rule map_cong)
    fix k assume "k \<in> set [a + 1 + 1 ..< n + 1]"
    then have "a + 1 < k" by auto
    then have "dispatched ?w2 + (k - (a + 1) - 1) = dispatched w + (k - a - 1)"
      unfolding d2 by arith
    then show "[Dispatch (dispatched ?w2 + (k - (a + 1) - 1)), Backoff (int k ^ 2 * 1000)] =
               [Dispatch (dispatched w + (k - a - 1)), Backoff (int k ^ 2 * 1000)]"
      by simp
  qed simp
  have range: "[a + 1 ..< n + 1] = (a + 1) # [a + 1 + 1 ..< n + 1]"
    using an by (simp add: upt_conv_Cons)
  have last: "dispatched ?w2 + (n - (a + 1)) = dispatched w + (n - a)"
    unfolding d2 using an by arith
  have w2steps: "attemptSteps (log ?w2) =
      attemptSteps (log w) @ [Dispatch (dispatched w), Backoff (int (a + 1) ^ 2 * 1000)]"
    by simp
  show ?case
    unfolding step rest shift range last w2steps by simp
qed

text \<open>The backoff delays in this version of the loop: the same trace as in the userscript,
  whether an attempt fails by a result without a score or by an exception.\<close>

lemma api_backoff_delay_is_attempt_squared:
  assumes "n < maxRetries"
    and "\<forall>k. 1 \<le> k \<and> k \<le> n \<longrightarrow> apiAttemptScore (fst (env (dispatched w + (k - 1)))) = None"
  shows "\<exists>rest.
           attemptSteps (callEvents w (snd (retryLoopApi env maxRetries 0 w))) =
             concat (map (\<lambda>k. [Dispatch (dispatched w + (k - 1)), Backoff (int k ^ 2 * 1000)])
                       [1 ..< n + 1]) @
             Dispatch (dispatched w + n) # rest"
proof -
  have fails: "\<forall>k. 0 < k \<and> k \<le> n \<longrightarrow>
      apiAttemptScore (fst (env (dispatched w + (k - 0 - 1)))) = None"
    using assms(2) by (simp add: Suc_le_eq)
  obtain rest where rest:
    "attemptSteps (log (snd (retryLoopApi env maxRetries 0 w))) =
       attemptSteps (log w) @
       concat (map (\<lambda>k. [Dispatch (dispatched w + (k - 0 - 1)), Backoff (int k ^ 2 * 1000)])
                 [0 + 1 ..< n + 1]) @
       Dispatch (dispatched w + (n - 0)) # rest"
    using retryLoopApi_failing_prefix [OF le0 assms(1) fails] by blast
  obtain ext where ext: "log (snd (retryLoopApi env maxRetries 0 w)) = log w @ ext"
    using retryLoopApi_log_extends by blast
  have "attemptSteps (callEvents w (snd (retryLoopApi env maxRetries 0 w))) = attemptSteps ext"
    using ext by (simp add: callEvents_def)
  moreover have "attemptSteps (log w) @ attemptSteps ext =
      attemptSteps (log w) @
       concat (map (\<lambda>k. [Dispatch (dispatched w + (k - 1)), Backoff (int k ^ 2 * 1000)])
                 [1 ..< n + 1]) @
       Dispatch (dispatched w + n) # rest"
    using rest ext by (simp add: attemptSteps_def)
  ultimately show ?thesis
    by simp
qed

text \<open>When every attempt fails, this loop too returns the fallback score 5 with
  \<open>error = true\<close>, after \<open>maxRetries\<close> attempts.\<close>

lemma retryLoopApi_all_fail:
  assumes "\<forall>k. attempt < k \<and> k \<le> maxRetries \<longrightarrow>
             apiAttemptScore (fst (env (dispatched w + (k - attempt - 1)))) = None"
  shows "fst (retryLoopApi env maxRetries attempt w) = failedRating \<and>
         dispatched (snd (retryLoopApi env maxRetries attempt w)) =
           dispatched w + (maxRetries - attempt)"
  using assms
proof (induction "maxRetries - attempt" arbitrary: attempt w)
  case 0
  then show ?case by (simp add: retryLoopApi_exhausted)
next
  case (Suc m)
  then have lt: "attempt < maxRetries" by simp
  have "attempt < attempt + 1 \<and> attempt + 1 \<le> maxRetries"
    using lt by simp
  then have "apiAttemptScore (fst (env (dispatched w + (attempt + 1 - attempt - 1)))) = None"
    by (rule Suc.prems [rule_format])
  then have fail: "apiAttemptScore (fst (env (dispatched w))) = None"
    by simp
  show ?case
  proof (cases "attempt + 1 < maxRetries")
    case True
    let ?w2 = "afterBackoff (attempt + 1) (afterApiAttempt env w)"
    have m: "m = maxRetries - (attempt + 1)" using Suc.hyps(2) by simp
    have d2: "dispatched ?w2 = dispatched w + 1" by simp
    have later: "\<forall>k. attempt + 1 < k \<and> k \<le> maxRetries \<longrightarrow>
        apiAttemptScore (fst (env (dispatched ?w2 + (k - (attempt + 1) - 1)))) = None"
    proof (intro allI impI)
      fix k assume k: "attempt + 1 < k \<and> k \<le> maxRetries"
      then have eq: "dispatched ?w2 + (k - (attempt + 1) - 1) = dispatched w + (k - attempt - 1)"
        unfolding d2 by arith
      have "attempt < k \<and> k \<le> maxRetries" using k by simp
      then have f: "apiAttemptScore (fst (env (dispatched w + (k - attempt - 1)))) = None"
        by (rule Suc.prems [rule_format])
      show "apiAttemptScore (fst (env (dispatched ?w2 + (k - (attempt + 1) - 1)))) = None"
        by (subst eq) (rule f)
    qed
    have count: "dispatched ?w2 + (maxRetries - (attempt + 1)) = dispatched w + (maxRetries - attempt)"
      unfolding d2 using True by arith
    show ?thesis
      using Suc.hyps(1) [OF m later] True fail count
      by (simp add: retryLoopApi_fail_retry)
  next
    case False
    then have "maxRetries - attempt = 1" using lt by simp
    then show ?thesis
      using lt False fail by (simp add: retryLoopApi_fail_last)
  qed
qed

text \<open>A response with a status outside 2xx, through \<open>rateTweet\<close>, is such a failed
  attempt; so is a rejected streaming attempt.\<close>

lemma getCompletion_http_error:
  "\<not> (200 \<le> status \<and> status < 300) \<Longrightarrow>
   error (getCompletion parse timeout (OnLoad status body))"
  by (auto simp: getCompletion_def)

lemma rateTweet_error:
  "error (getCompletion parse 30000 outcome) \<Longrightarrow>
   apiAttemptScore (rateTweet parse outcome) = None"
  by (simp add: rateTweet_def Let_def)

lemma rateTweet_http_error:
  "\<not> (200 \<le> status \<and> status < 300) \<Longrightarrow>
   apiAttemptScore (rateTweet parse (OnLoad status body)) = None"
  by (intro rateTweet_error getCompletion_http_error)

lemma streaming_rejected_fails: "apiAttemptScore (streamingOutcome (Rejected msg)) = None"
  by simp

end
